theory Spec2Isabelle
  imports Complex_Main "HOL-Library.AList" "HOL-Library.Char_ord" "HOL-Library.List_Lexorder"
    "HOL-Library.Log_Nat" "HOL-Library.Multiset"
begin

section \<open>Data model\<close>

text \<open>
  The Python sources work on tuples \<^verbatim>\<open>(chain, res_id, res_name, (x, y, z))\<close>, on
  dictionaries keyed by the two-letter pair code, and on floating-point numbers.
  Integers are Python's unbounded integers. Counts only ever grow from zero by additions
  of non-negative amounts, so they are natural numbers. A dictionary is an association
  list in insertion order with distinct keys, which is the order Python iterates it in.

  Floats come in two layers. Where the code converts between text and floats
  (\<^verbatim>\<open>float(...)\<close> in the parser and in \<^verbatim>\<open>read_scores\<close>, the format \<^verbatim>\<open>.4f\<close> in \<^verbatim>\<open>write_scores\<close>), a
  float is a value of the type \<open>pyfloat\<close>: a finite number, the negative zero, an infinity
  or a NaN, and text is rounded to the nearest binary64 number as Python does. Where the
  code computes with floats (distances, frequencies, logarithms, sums), the arithmetic
  is idealised as exact arithmetic on real numbers.
\<close>

datatype pyfloat = Fin real | NegZero | PosInf | NegInf | NaN

text \<open>\<open>Fin 0\<close> is the positive zero. The tuple of a residue, over the type of its
  coordinates: floats as the parser returns it, real numbers in the arithmetic.\<close>

type_synonym coord = "real \<times> real \<times> real"

record 'c residue_tuple =
  chain :: string
  res_id :: int
  res_name :: string
  coord :: 'c

type_synonym residue = "coord residue_tuple"

type_synonym parsed_residue = "(pyfloat \<times> pyfloat \<times> pyfloat) residue_tuple"

type_synonym 'v pydict = "(string \<times> 'v) list"

type_synonym histogram = "nat list pydict"

type_synonym score_table = "real list pydict"

type_synonym float_table = "pyfloat list pydict"

text \<open>The exceptions the code can raise. \<open>NonFinite\<close> is not a Python exception: it marks
  a run in which a structure with an infinite or NaN coordinate reaches the distance
  arithmetic, which the real-number idealisation does not cover.\<close>

datatype error = IndexError | ValueError | FileNotFoundError | NonFinite

definition VALID_RESIDUES :: "string list" where
  "VALID_RESIDUES = [''A'', ''U'', ''G'', ''C'']"

definition VALID_PAIRS :: "string list" where
  "VALID_PAIRS = [''AA'', ''AC'', ''AG'', ''AU'', ''CC'', ''CG'', ''CU'', ''GG'', ''GU'', ''UU'']"

section \<open>The histogram builder of the training path (train.py)\<close>

text \<open>\<^verbatim>\<open>initialize_counts\<close>: twenty zeros (a NumPy array of floats in train.py; the
  counts stay whole numbers).\<close>

definition initialize_counts :: "nat list" where
  "initialize_counts = replicate 20 0"

text \<open>\<^verbatim>\<open>math.sqrt(sum((a - b) ** 2 for a, b in zip(coord1, coord2)))\<close>\<close>

definition euclid :: "coord \<Rightarrow> coord \<Rightarrow> real" where
  "euclid c1 c2 =
     (case c1 of (x1, y1, z1) \<Rightarrow> case c2 of (x2, y2, z2) \<Rightarrow>
        sqrt ((x1 - x2)\<^sup>2 + (y1 - y2)\<^sup>2 + (z1 - z2)\<^sup>2))"

text \<open>\<^verbatim>\<open>''.join(sorted([res_name1, res_name2]))\<close>: the sort is stable, so the two names
  are swapped only when the second is strictly smaller.\<close>

definition pair_key :: "string \<Rightarrow> string \<Rightarrow> string" where
  "pair_key n1 n2 = (if n2 < n1 then n2 @ n1 else n1 @ n2)"

text \<open>\<^verbatim>\<open>d[pair][bin_index] += amount\<close> on a dictionary whose missing entries are created
  from \<open>dflt\<close>. The index is inside the list at every call made by the histogram
  builders (twenty bins, index below twenty).\<close>

definition bump :: "nat list \<Rightarrow> string \<Rightarrow> nat \<Rightarrow> nat \<Rightarrow> histogram \<Rightarrow> histogram" where
  "bump dflt pair i amount d =
     AList.map_default pair (dflt[i := dflt ! i + amount]) (\<lambda>bins. bins[i := bins ! i + amount]) d"

text \<open>The body of the inner loop of \<^verbatim>\<open>compute_distances\<close>, for the residue \<open>r1\<close> of the outer
  loop and the residue \<open>r2\<close> of the inner one. \<^verbatim>\<open>int(dist)\<close> truncates towards zero.\<close>

definition bin_index :: "residue \<Rightarrow> residue \<Rightarrow> int" where
  "bin_index r1 r2 = \<lfloor>euclid (coord r1) (coord r2)\<rfloor>"

definition count_pair :: "residue \<Rightarrow> histogram \<Rightarrow> residue \<Rightarrow> histogram" where
  "count_pair r1 distances r2 =
     (if chain r1 = chain r2 \<and> \<bar>res_id r1 - res_id r2\<bar> \<ge> 3 then
        if bin_index r1 r2 < 20 then
          let pair = pair_key (res_name r1) (res_name r2) in
          if pair \<in> set VALID_PAIRS then
            bump initialize_counts pair (nat (bin_index r1 r2)) 1 distances
          else distances
        else distances
      else distances)"

definition compute_distances :: "residue list \<Rightarrow> histogram" where
  "compute_distances residues =
     foldl (\<lambda>distances r1. foldl (count_pair r1) distances residues) [] residues"

section \<open>Vocabulary of the histogram claims\<close>

text \<open>The sum of all bin counts of all pair keys of a histogram.\<close>

definition hist_total :: "histogram \<Rightarrow> nat" where
  "hist_total d = sum_list (map (\<lambda>(pair, bins). sum_list bins) d)"

text \<open>Every entry has twenty bins.\<close>

definition twenty_bins :: "histogram \<Rightarrow> bool" where
  "twenty_bins d = list_all (\<lambda>(pair, bins). length bins = 20) d"

text \<open>The guards of the loop body on a pair of residues, as the code evaluates them: same
  chain, at least three sequence positions apart, bin index below twenty.\<close>

definition passes_guards :: "residue \<Rightarrow> residue \<Rightarrow> bool" where
  "passes_guards r1 r2 =
     (chain r1 = chain r2 \<and> \<bar>res_id r1 - res_id r2\<bar> \<ge> 3 \<and> bin_index r1 r2 < 20)"

text \<open>What the inner loop body really counts: a pair that passes the guards and whose key
  is one of the ten valid keys.\<close>

definition counted :: "residue \<Rightarrow> residue \<Rightarrow> bool" where
  "counted r1 r2 = (passes_guards r1 r2 \<and> pair_key (res_name r1) (res_name r2) \<in> set VALID_PAIRS)"

text \<open>The specification's side of the histogram total, stated without the functions of
  the code. The Euclidean distance of two points of space:\<close>

definition euclidean_distance :: "coord \<Rightarrow> coord \<Rightarrow> real" where
  "euclidean_distance p q =
     sqrt ((fst q - fst p)\<^sup>2 + (fst (snd q) - fst (snd p))\<^sup>2 + (snd (snd q) - snd (snd p))\<^sup>2)"

text \<open>Two residues qualify when they are on the same chain, at least three sequence
  positions apart, and the floor of their Euclidean distance is below twenty.\<close>

definition qualifies :: "residue \<Rightarrow> residue \<Rightarrow> bool" where
  "qualifies r1 r2 =
     (chain r1 = chain r2 \<and> 3 \<le> \<bar>res_id r2 - res_id r1\<bar>
      \<and> \<lfloor>euclidean_distance (coord r1) (coord r2)\<rfloor> < 20)"

text \<open>The canonical key of two base types: the two names in sorted order, joined.\<close>

definition canonical_key :: "string \<Rightarrow> string \<Rightarrow> string" where
  "canonical_key n1 n2 = concat (sort [n1, n2])"

definition has_valid_key :: "residue \<Rightarrow> residue \<Rightarrow> bool" where
  "has_valid_key r1 r2 = (canonical_key (res_name r1) (res_name r2) \<in> set VALID_PAIRS)"

text \<open>The unordered pairs of distinct residues of a structure, as pairs of list positions
  \<open>i < j\<close>.\<close>

definition unordered_pairs :: "'a list \<Rightarrow> (nat \<times> nat) list" where
  "unordered_pairs rs =
     filter (\<lambda>(i, j). i < j) (List.product [0..<length rs] [0..<length rs])"

text \<open>Those that qualify, and those that qualify and have a valid key.\<close>

definition qualifying_pairs :: "residue list \<Rightarrow> (nat \<times> nat) list" where
  "qualifying_pairs rs = filter (\<lambda>(i, j). qualifies (rs ! i) (rs ! j)) (unordered_pairs rs)"

definition keyed_qualifying_pairs :: "residue list \<Rightarrow> (nat \<times> nat) list" where
  "keyed_qualifying_pairs rs =
     filter (\<lambda>(i, j). has_valid_key (rs ! i) (rs ! j)) (qualifying_pairs rs)"

text \<open>The invariant of the data model: the base type of a residue is one of A, U, G, C.\<close>

definition valid_residue :: "residue \<Rightarrow> bool" where
  "valid_residue r = (res_name r \<in> set VALID_RESIDUES)"

text \<open>The example structure of the specification: two residues on chain A, positions 1
  and 5, bases A and C, 3.5 apart.\<close>

definition example_residues :: "residue list" where
  "example_residues =
     [\<lparr>chain = ''A'', res_id = 1, res_name = ''A'', coord = (0, 0, 0)\<rparr>,
      \<lparr>chain = ''A'', res_id = 5, res_name = ''C'', coord = (0, 0, 3.5)\<rparr>]"

text \<open>A chain fragment with a thymine, as a DNA or hybrid structure has them: the same
  geometry as the example structure, bases A and T.\<close>

definition example_dna_residues :: "residue list" where
  "example_dna_residues =
     [\<lparr>chain = ''A'', res_id = 1, res_name = ''A'', coord = (0, 0, 0)\<rparr>,
      \<lparr>chain = ''A'', res_id = 5, res_name = ''T'', coord = (0, 0, 3.5)\<rparr>]"

text \<open>A structure of six residues laid out along one axis: the pairs at distances 3.5,
  16.5, 19.5 and 17.5 qualify; the others are too far away (the first and the third are
  exactly 20 apart), too close in sequence, or on another chain.\<close>

definition example_axis_residues :: "residue list" where
  "example_axis_residues =
     [\<lparr>chain = ''A'', res_id = 1, res_name = ''A'', coord = (0, 0, 0)\<rparr>,
      \<lparr>chain = ''A'', res_id = 5, res_name = ''C'', coord = (0, 0, 3.5)\<rparr>,
      \<lparr>chain = ''A'', res_id = 9, res_name = ''G'', coord = (0, 0, 20)\<rparr>,
      \<lparr>chain = ''A'', res_id = 12, res_name = ''U'', coord = (0, 0, -19.5)\<rparr>,
      \<lparr>chain = ''B'', res_id = 20, res_name = ''A'', coord = (0, 0, 1)\<rparr>,
      \<lparr>chain = ''A'', res_id = 3, res_name = ''G'', coord = (0, 0, -2)\<rparr>]"

section \<open>Aggregation and score derivation (train.py)\<close>

text \<open>A loop whose body may raise: the first error ends the loop.\<close>

fun fold_err :: "('s \<Rightarrow> 'a \<Rightarrow> error + 's) \<Rightarrow> 's \<Rightarrow> 'a list \<Rightarrow> error + 's" where
  "fold_err f s [] = Inr s"
| "fold_err f s (x # xs) = (case f s x of Inl e \<Rightarrow> Inl e | Inr s' \<Rightarrow> fold_err f s' xs)"

text \<open>\<^verbatim>\<open>combined_counts[pair][bin_idx] += count\<close> on a \<^verbatim>\<open>defaultdict(lambda: [0] * 20)\<close>.
  The entry is a list of twenty items, so an index of twenty or more raises IndexError.\<close>

definition add_count :: "string \<Rightarrow> histogram \<Rightarrow> nat \<times> nat \<Rightarrow> error + histogram" where
  "add_count pair combined_counts ic =
     (case ic of (bin_idx, cnt) \<Rightarrow>
        let bins = (case map_of combined_counts pair of None \<Rightarrow> replicate 20 0 | Some b \<Rightarrow> b) in
        if bin_idx < length bins then
          Inr (bump (replicate 20 0) pair bin_idx cnt combined_counts)
        else Inl IndexError)"

text \<open>The body of the loop over \<^verbatim>\<open>distances.items()\<close>.\<close>

definition add_entry :: "histogram \<Rightarrow> string \<times> nat list \<Rightarrow> error + histogram" where
  "add_entry combined_counts entry =
     (case entry of (pair, bins) \<Rightarrow>
        if pair \<in> set VALID_PAIRS then
          fold_err (add_count pair) combined_counts (enumerate 0 bins)
        else Inr combined_counts)"

definition aggregate_counts :: "histogram list \<Rightarrow> error + histogram" where
  "aggregate_counts all_distances =
     fold_err (\<lambda>combined_counts distances. fold_err add_entry combined_counts distances)
       [] all_distances"

text \<open>The score of one bin, as \<^verbatim>\<open>calculate_scores\<close> computes it from the count of the bin
  and the total of the entry.\<close>

definition bin_score :: "nat \<Rightarrow> nat \<Rightarrow> real" where
  "bin_score cnt total_counts =
     (let observed_freq = (if total_counts > 0 then real cnt / real total_counts else 0);
          ref_freq = 1 / 20;
          score = (if observed_freq > 0 then - ln (observed_freq / ref_freq) else 10)
      in min score 10)"

text \<open>The input is a dictionary, so each key is visited once and \<^verbatim>\<open>scores[pair] = pair_scores\<close>
  adds one entry per entry of the input, in the same order.\<close>

definition calculate_scores :: "histogram \<Rightarrow> score_table" where
  "calculate_scores combined_counts =
     map (\<lambda>(pair, counts). (pair, map (\<lambda>cnt. bin_score cnt (sum_list counts)) counts))
       combined_counts"

section \<open>The scorer (scoring.py)\<close>

text \<open>The scoring path has its own copy of the histogram loop, on a
  \<^verbatim>\<open>defaultdict(lambda: [0] * 20)\<close>.\<close>

definition count_pair_scoring :: "residue \<Rightarrow> histogram \<Rightarrow> residue \<Rightarrow> histogram" where
  "count_pair_scoring r1 distances r2 =
     (if chain r1 = chain r2 \<and> \<bar>res_id r1 - res_id r2\<bar> \<ge> 3 then
        let dist = euclid (coord r1) (coord r2);
            bin_idx = \<lfloor>dist\<rfloor>
        in if bin_idx < 20 then
             let pair = pair_key (res_name r1) (res_name r2) in
             if pair \<in> set VALID_PAIRS then
               bump (replicate 20 0) pair (nat bin_idx) 1 distances
             else distances
           else distances
      else distances)"

definition scoring_distances :: "residue list \<Rightarrow> histogram" where
  "scoring_distances residues =
     foldl (\<lambda>distances r1. foldl (count_pair_scoring r1) distances residues) [] residues"

text \<open>The inner loop of the second half of \<^verbatim>\<open>compute_distances_and_scores\<close>: the score of one
  entry of the structure's own histogram.\<close>

definition pair_score :: "nat list \<Rightarrow> real" where
  "pair_score bins =
     (let total_counts = sum_list bins in
      foldl (\<lambda>pair_score cnt.
               let observed_freq = (if total_counts > 0 then real cnt / real total_counts else 0);
                   ref_freq = 1 / 20;
                   score = (if observed_freq > 0 then - ln (observed_freq / ref_freq) else 10)
               in pair_score + min score 10)
        0 bins)"

definition compute_distances_and_scores :: "residue list \<Rightarrow> 'v pydict \<Rightarrow> real" where
  "compute_distances_and_scores residues scores =
     (let distances = scoring_distances residues in
      foldl (\<lambda>total_score (pair, bins).
               if pair \<in> fst ` set scores then total_score + pair_score bins else total_score)
        0 distances)"

section \<open>Strings, numbers and files\<close>

text \<open>The characters removed by \<^verbatim>\<open>str.strip()\<close>, and the smaller set skipped by \<^verbatim>\<open>int()\<close>
  and \<^verbatim>\<open>float()\<close> around a number, for ASCII text.\<close>

definition is_space :: "char \<Rightarrow> bool" where
  "is_space c = (c \<in> set [CHR 0x09, CHR 0x0A, CHR 0x0B, CHR 0x0C, CHR 0x0D,
                            CHR 0x1C, CHR 0x1D, CHR 0x1E, CHR 0x1F, CHR 0x20])"

definition is_num_space :: "char \<Rightarrow> bool" where
  "is_num_space c = (c \<in> set [CHR 0x09, CHR 0x0A, CHR 0x0B, CHR 0x0C, CHR 0x0D, CHR 0x20])"

definition strip_with :: "(char \<Rightarrow> bool) \<Rightarrow> string \<Rightarrow> string" where
  "strip_with sp s = rev (dropWhile sp (rev (dropWhile sp s)))"

definition py_strip :: "string \<Rightarrow> string" where
  "py_strip s = strip_with is_space s"

text \<open>\<^verbatim>\<open>s[a:b]\<close> for \<open>0 \<le> a \<le> b\<close>, \<^verbatim>\<open>s.startswith(p)\<close> and \<^verbatim>\<open>sub in s\<close>.\<close>

definition slice :: "nat \<Rightarrow> nat \<Rightarrow> string \<Rightarrow> string" where
  "slice a b s = take (b - a) (drop a s)"

definition startswith :: "string \<Rightarrow> string \<Rightarrow> bool" where
  "startswith s p = (take (length p) s = p)"

fun contains :: "string \<Rightarrow> string \<Rightarrow> bool" where
  "contains [] sub = (sub = [])"
| "contains (c # s) sub = (startswith (c # s) sub \<or> contains s sub)"

text \<open>Decimal digits. A group of digits may hold single underscores between digits.\<close>

definition is_digit :: "char \<Rightarrow> bool" where
  "is_digit c = (CHR ''0'' \<le> c \<and> c \<le> CHR ''9'')"

definition digit_val :: "char \<Rightarrow> nat" where
  "digit_val c = of_char c - 48"

definition digits_ok :: "string \<Rightarrow> bool" where
  "digits_ok s =
     (s \<noteq> [] \<and> is_digit (hd s) \<and> is_digit (last s)
      \<and> list_all (\<lambda>c. is_digit c \<or> c = CHR ''_'') s \<and> \<not> contains s ''__'')"

definition digits_val :: "string \<Rightarrow> nat" where
  "digits_val s = foldl (\<lambda>a c. 10 * a + digit_val c) 0 (filter is_digit s)"

text \<open>An optional sign in front: whether it is a minus, and the rest.\<close>

definition split_sign :: "string \<Rightarrow> bool \<times> string" where
  "split_sign s =
     (case s of
        [] \<Rightarrow> (False, [])
      | c # r \<Rightarrow> if c = CHR ''-'' then (True, r) else if c = CHR ''+'' then (False, r)
                 else (False, s))"

text \<open>\<^verbatim>\<open>int(s)\<close> on ASCII text.\<close>

definition py_int :: "string \<Rightarrow> error + int" where
  "py_int s =
     (case split_sign (strip_with is_num_space s) of (neg, body) \<Rightarrow>
        if digits_ok body then
          Inr (if neg then - int (digits_val body) else int (digits_val body))
        else Inl ValueError)"

text \<open>The text before the first character that satisfies \<open>P\<close>, and the text after it if
  there is such a character.\<close>

definition split_at :: "(char \<Rightarrow> bool) \<Rightarrow> string \<Rightarrow> string \<times> string option" where
  "split_at P s =
     (takeWhile (\<lambda>c. \<not> P c) s,
      case dropWhile (\<lambda>c. \<not> P c) s of [] \<Rightarrow> None | c # r \<Rightarrow> Some r)"

definition lower :: "char \<Rightarrow> char" where
  "lower c = (if CHR ''A'' \<le> c \<and> c \<le> CHR ''Z'' then char_of (of_char c + (32::nat)) else c)"

text \<open>\<^verbatim>\<open>float(s)\<close> on ASCII text: an optional sign, then \<^verbatim>\<open>inf\<close>, \<^verbatim>\<open>infinity\<close> or \<^verbatim>\<open>nan\<close> in
  any case, or digits with an optional fraction and an optional exponent. The value is
  the exact decimal value.\<close>

definition py_float :: "string \<Rightarrow> error + real" where
  "py_float s =
     (case split_sign (strip_with is_num_space s) of (neg, body) \<Rightarrow>
        if map lower body \<in> set [''inf'', ''infinity'', ''nan''] then Inl NonFinite
        else
          case split_at (\<lambda>c. c = CHR ''e'' \<or> c = CHR ''E'') body of (mant, ex) \<Rightarrow>
          case split_at (\<lambda>c. c = CHR ''.'') mant of (ip, fp) \<Rightarrow>
            let fpd = (case fp of None \<Rightarrow> [] | Some f \<Rightarrow> f);
                m = real (digits_val (ip @ fpd)) / 10 ^ length (filter is_digit fpd);
                v = (if neg then - m else m)
            in
            if (ip = [] \<or> digits_ok ip) \<and> (fpd = [] \<or> digits_ok fpd) \<and> (ip \<noteq> [] \<or> fpd \<noteq> [])
            then
              case ex of
                None \<Rightarrow> Inr v
              | Some e \<Rightarrow>
                  (case split_sign e of (eneg, ed) \<Rightarrow>
                     if digits_ok ed then
                       Inr (if eneg then v / 10 ^ digits_val ed else v * 10 ^ digits_val ed)
                     else Inl ValueError)
            else Inl ValueError)"

text \<open>A file system maps the path of each readable file to its lines, as iterating the
  file or \<^verbatim>\<open>readlines\<close> gives them (each with its line end).\<close>

type_synonym filesystem = "string \<rightharpoonup> string list"

text \<open>\<^verbatim>\<open>os.path.join(a, b)\<close> for a relative \<open>b\<close> on a POSIX system.\<close>

definition path_join :: "string \<Rightarrow> string \<Rightarrow> string" where
  "path_join a b = (if a = [] \<or> last a = CHR ''/'' then a @ b else a @ ''/'' @ b)"

section \<open>The structure parser (train.py and scoring.py hold the same function)\<close>

definition C3_prime :: string where
  "C3_prime = [CHR ''C'', CHR ''3'', CHR 0x27]"

text \<open>The body of the loop over the lines: the residue to append, if any.\<close>

definition parse_line :: "string \<Rightarrow> error + residue option" where
  "parse_line line =
     (if startswith line ''ATOM'' \<and> contains line C3_prime then
        if length line \<le> 21 then Inl IndexError
        else
          let ch = py_strip [line ! 21] in
          case py_int (py_strip (slice 22 26 line)) of
            Inl e \<Rightarrow> Inl e
          | Inr rid \<Rightarrow>
              let rname = py_strip (slice 17 20 line) in
              if rname \<in> set VALID_RESIDUES then
                case py_float (slice 30 38 line) of
                  Inl e \<Rightarrow> Inl e
                | Inr x \<Rightarrow>
                    (case py_float (slice 38 46 line) of
                       Inl e \<Rightarrow> Inl e
                     | Inr y \<Rightarrow>
                         (case py_float (slice 46 54 line) of
                            Inl e \<Rightarrow> Inl e
                          | Inr z \<Rightarrow>
                              Inr (Some \<lparr>chain = ch, res_id = rid, res_name = rname,
                                         coord = (x, y, z)\<rparr>)))
              else Inr None
      else Inr None)"

definition parse_lines :: "string list \<Rightarrow> error + residue list" where
  "parse_lines lines =
     fold_err (\<lambda>residues line.
                 case parse_line line of
                   Inl e \<Rightarrow> Inl e
                 | Inr None \<Rightarrow> Inr residues
                 | Inr (Some r) \<Rightarrow> Inr (residues @ [r]))
       [] lines"

definition parse_pdb :: "filesystem \<Rightarrow> string \<Rightarrow> error + residue list" where
  "parse_pdb fs file_path =
     (case fs file_path of
        None \<Rightarrow> Inl FileNotFoundError
      | Some lines \<Rightarrow> parse_lines lines)"

section \<open>The score-table codec: \<^verbatim>\<open>write_scores\<close> (train.py) and \<^verbatim>\<open>read_scores\<close> (scoring.py)\<close>

text \<open>The decimal digits of a natural number.\<close>

definition digit_char :: "nat \<Rightarrow> char" where
  "digit_char d = ''0123456789'' ! d"

fun dec :: "nat \<Rightarrow> string" where
  "dec n = (if n < 10 then [digit_char n] else dec (n div 10) @ [digit_char (n mod 10)])"

declare dec.simps [simp del]

definition pad4 :: "nat \<Rightarrow> string" where
  "pad4 m = map digit_char [m div 1000 mod 10, m div 100 mod 10, m div 10 mod 10, m mod 10]"

text \<open>Rounding to the nearest integer, a tie going to the even neighbour: the rounding of
  Python's float formatting.\<close>

definition round_half_even :: "real \<Rightarrow> int" where
  "round_half_even x =
     (let f = \<lfloor>x\<rfloor>; d = x - of_int f in
      if d < 1 / 2 then f else if d > 1 / 2 then f + 1 else if even f then f else f + 1)"

text \<open>\<^verbatim>\<open>f"{score:.4f}"\<close>: the sign, the integer part, a point and four decimals.\<close>

definition fmt4 :: "real \<Rightarrow> string" where
  "fmt4 x =
     (let n = nat (round_half_even (\<bar>x\<bar> * 10000)) in
      (if x < 0 then ''-'' else []) @ dec (n div 10000) @ ''.'' @ pad4 (n mod 10000))"

text \<open>The file of a pair key in a directory.\<close>

definition score_file :: "string \<Rightarrow> string \<Rightarrow> string" where
  "score_file dir pair = path_join dir (pair @ ''.txt'')"

text \<open>\<^verbatim>\<open>write_scores\<close>: the file system after the call. The ten keys are visited in an
  arbitrary order in Python (a set); each visit touches only the file of its own key.
  Each written line ends with a line feed.\<close>

definition write_scores :: "score_table \<Rightarrow> string \<Rightarrow> filesystem \<Rightarrow> filesystem" where
  "write_scores scores output_dir fs =
     foldl (\<lambda>fs pair.
              case map_of scores pair of
                None \<Rightarrow> fs
              | Some pair_scores \<Rightarrow>
                  if list_ex (\<lambda>score. score > 0) pair_scores then
                    fs(score_file output_dir pair
                         \<mapsto> map (\<lambda>score. fmt4 score @ [CHR 0x0A]) pair_scores)
                  else fs)
       fs VALID_PAIRS"

text \<open>\<^verbatim>\<open>[float(line.strip()) for line in f.readlines()]\<close>\<close>

definition read_floats :: "string list \<Rightarrow> error + real list" where
  "read_floats lines =
     fold_err (\<lambda>vals line.
                 case py_float (py_strip line) of
                   Inl e \<Rightarrow> Inl e
                 | Inr v \<Rightarrow> Inr (vals @ [v]))
       [] lines"

text \<open>\<^verbatim>\<open>read_scores\<close>; the warning printed for a missing file is not modelled.\<close>

definition read_scores :: "filesystem \<Rightarrow> string \<Rightarrow> error + score_table" where
  "read_scores fs input_dir =
     fold_err (\<lambda>scores pair.
                 case fs (score_file input_dir pair) of
                   None \<Rightarrow> Inr scores
                 | Some lines \<Rightarrow>
                     (case read_floats lines of
                        Inl e \<Rightarrow> Inl e
                      | Inr vals \<Rightarrow> Inr (AList.update pair vals scores)))
       [] VALID_PAIRS"

section \<open>The drivers\<close>

text \<open>\<^verbatim>\<open>evaluate_structures\<close> (scoring.py).\<close>

definition evaluate_structures :: "filesystem \<Rightarrow> string list \<Rightarrow> string \<Rightarrow> error + real" where
  "evaluate_structures fs pdb_files score_dir =
     (case read_scores fs score_dir of
        Inl e \<Rightarrow> Inl e
      | Inr scores \<Rightarrow>
          (case fold_err (\<lambda>total_gibbs_energy pdb_file.
                            case parse_pdb fs pdb_file of
                              Inl e \<Rightarrow> Inl e
                            | Inr residues \<Rightarrow>
                                Inr (total_gibbs_energy
                                       + compute_distances_and_scores residues scores))
                  0 pdb_files of
             Inl e \<Rightarrow> Inl e
           | Inr total_gibbs_energy \<Rightarrow>
               let num_files = length pdb_files in
               if num_files > 0 then Inr (total_gibbs_energy / real num_files) else Inr 0))"

text \<open>\<^verbatim>\<open>process_single_file\<close> and \<^verbatim>\<open>process_pdb_files_parallel\<close> (train.py). The executor
  returns the results in the order of the files, and the first failure ends the run.\<close>

definition process_single_file :: "filesystem \<Rightarrow> string \<Rightarrow> error + histogram" where
  "process_single_file fs pdb_file =
     (case parse_pdb fs pdb_file of
        Inl e \<Rightarrow> Inl e
      | Inr residues \<Rightarrow> Inr (compute_distances residues))"

definition process_pdb_files_parallel ::
  "filesystem \<Rightarrow> string list \<Rightarrow> string \<Rightarrow> error + filesystem" where
  "process_pdb_files_parallel fs pdb_files output_dir =
     (case fold_err (\<lambda>all_distances pdb_file.
                       case process_single_file fs pdb_file of
                         Inl e \<Rightarrow> Inl e
                       | Inr distances \<Rightarrow> Inr (all_distances @ [distances]))
             [] pdb_files of
        Inl e \<Rightarrow> Inl e
      | Inr all_distances \<Rightarrow>
          (case aggregate_counts all_distances of
             Inl e \<Rightarrow> Inl e
           | Inr combined_counts \<Rightarrow>
               Inr (write_scores (calculate_scores combined_counts) output_dir fs)))"

section \<open>Vocabulary of the aggregation claims\<close>

text \<open>Every entry of a histogram has at least one positive bin count.\<close>

definition positive_totals :: "histogram \<Rightarrow> bool" where
  "positive_totals d = list_all (\<lambda>(pair, bins). 0 < sum_list bins) d"

text \<open>The total of the entry of a key, zero when the key is absent.\<close>

definition key_total :: "histogram \<Rightarrow> string \<Rightarrow> nat" where
  "key_total d k = (case map_of d k of None \<Rightarrow> 0 | Some bins \<Rightarrow> sum_list bins)"

text \<open>The invariant of the aggregation loop between two entries: twenty bins per entry,
  distinct keys, and a positive total for every key present.\<close>

definition agg_inv :: "histogram \<Rightarrow> bool" where
  "agg_inv d = (twenty_bins d \<and> distinct (map fst d) \<and> (\<forall>k \<in> fst ` set d. 0 < key_total d k))"

text \<open>The single additions \<^verbatim>\<open>combined_counts[pair][bin_idx] += count\<close> that the
  aggregation loop performs for one entry, and for a list of histograms, in order.\<close>

definition steps_of_entry :: "string \<times> nat list \<Rightarrow> (string \<times> nat \<times> nat) list" where
  "steps_of_entry entry =
     (case entry of (pair, bins) \<Rightarrow>
        if pair \<in> set VALID_PAIRS then map (Pair pair) (enumerate 0 bins) else [])"

definition steps_of :: "histogram list \<Rightarrow> (string \<times> nat \<times> nat) list" where
  "steps_of all_distances = concat (map steps_of_entry (concat all_distances))"

text \<open>The same addition on the dictionary seen as a finite map, an error being final.\<close>

definition bins_of :: "(string \<rightharpoonup> nat list) \<Rightarrow> string \<Rightarrow> nat list" where
  "bins_of m pair = (case m pair of None \<Rightarrow> replicate 20 0 | Some b \<Rightarrow> b)"

fun astep :: "string \<times> nat \<times> nat \<Rightarrow> error + (string \<rightharpoonup> nat list) \<Rightarrow> error + (string \<rightharpoonup> nat list)" where
  "astep (pair, i, c) (Inl e) = Inl e"
| "astep (pair, i, c) (Inr m) =
     (if i < length (bins_of m pair) then Inr (m(pair \<mapsto> (bins_of m pair)[i := bins_of m pair ! i + c]))
      else Inl IndexError)"

text \<open>Two histograms used as examples: the histogram of the example structure, and a
  histogram with one pair of adenines in bin 7.\<close>

definition example_hist_AC :: histogram where
  "example_hist_AC = [(''AC'', [0, 0, 0, 2, 0, 0, 0, 0, 0, 0, 0, 0, 0, 0, 0, 0, 0, 0, 0, 0])]"

definition example_hist_AA :: histogram where
  "example_hist_AA = [(''AA'', [0, 0, 0, 0, 0, 0, 0, 2, 0, 0, 0, 0, 0, 0, 0, 0, 0, 0, 0, 0])]"

section \<open>Vocabulary of the score claims\<close>

text \<open>The specification of a score: the observed frequency of a bin is count / total (0 when
  the total is 0), the raw score is the negated logarithm of its ratio to the reference
  frequency 1/20, or the sentinel 10 when the frequency is not positive.\<close>

definition observed_freq :: "nat \<Rightarrow> nat \<Rightarrow> real" where
  "observed_freq cnt tot = (if tot = 0 then 0 else real cnt / real tot)"

definition raw_score :: "real \<Rightarrow> real" where
  "raw_score f = (if f > 0 then - ln (f / (1 / 20)) else 10)"

text \<open>An aggregated histogram in which one bin is rare: 2 of 4000002 counts.\<close>

definition example_rare :: histogram where
  "example_rare =
     [(''AA'', [2, 4000000, 0, 0, 0, 0, 0, 0, 0, 0, 0, 0, 0, 0, 0, 0, 0, 0, 0, 0])]"

text \<open>The capped log-odds score as the specification of the scorer words it: from a count
  and the total of its entry, min(-ln((count/total)/(1/20)), 10) when the count is
  positive and 10 otherwise.\<close>

definition capped_log_odds :: "nat \<Rightarrow> nat \<Rightarrow> real" where
  "capped_log_odds cnt tot =
     (if cnt > 0 then min (- ln ((real cnt / real tot) / (1 / 20))) 10 else 10)"

text \<open>Two score tables with the same key and different stored values.\<close>

definition example_table_zeros :: score_table where
  "example_table_zeros = [(''AC'', replicate 20 0)]"

definition example_table_tens :: score_table where
  "example_table_tens = [(''AC'', replicate 20 10)]"

section \<open>Vocabulary of the parser claims\<close>

text \<open>A line is relevant when it is an atom record of the C3' atom. A relevant line is
  well formed when it reaches the chain column, holds an integer in the sequence-number
  columns and, if its base type is valid, a finite decimal number in each coordinate
  column. A relevant line with a valid base type is retained, as the residue read from
  its columns.\<close>

definition relevant :: "string \<Rightarrow> bool" where
  "relevant line = (startswith line ''ATOM'' \<and> contains line C3_prime)"

definition well_formed :: "string \<Rightarrow> bool" where
  "well_formed line =
     (21 < length line
      \<and> \<not> isl (py_int (py_strip (slice 22 26 line)))
      \<and> (py_strip (slice 17 20 line) \<in> set VALID_RESIDUES \<longrightarrow>
            \<not> isl (py_float (slice 30 38 line))
            \<and> \<not> isl (py_float (slice 38 46 line))
            \<and> \<not> isl (py_float (slice 46 54 line))))"

definition retained :: "string \<Rightarrow> bool" where
  "retained line = (relevant line \<and> py_strip (slice 17 20 line) \<in> set VALID_RESIDUES)"

definition residue_of :: "string \<Rightarrow> residue" where
  "residue_of line =
     \<lparr>chain = py_strip [line ! 21],
      res_id = projr (py_int (py_strip (slice 22 26 line))),
      res_name = py_strip (slice 17 20 line),
      coord = (projr (py_float (slice 30 38 line)),
               projr (py_float (slice 38 46 line)),
               projr (py_float (slice 46 54 line)))\<rparr>"

text \<open>A structure file with a header, the two C3' records of the example structure, a
  record of another atom and a C3' record of a base type that is not retained; and a
  file whose only record is cut off before the chain column.\<close>

definition example_pdb_lines :: "string list" where
  "example_pdb_lines =
     [''HEADER    RNA'' @ [CHR 0x0A],
      ''ATOM      1  C3'' @ [CHR 0x27] @ ''   A A   1       0.000   0.000   0.000'' @ [CHR 0x0A],
      ''ATOM      2  P     A A   1       1.000   2.000   3.000'' @ [CHR 0x0A],
      ''ATOM      3  C3'' @ [CHR 0x27] @ ''  DT A   3       9.000   9.000   9.000'' @ [CHR 0x0A],
      ''ATOM      4  C3'' @ [CHR 0x27] @ ''   C A   5       0.000   0.000   3.500'' @ [CHR 0x0A]]"

definition example_cut_lines :: "string list" where
  "example_cut_lines = [''ATOM      1  C3'' @ [CHR 0x27] @ ''   A'' @ [CHR 0x0A]]"

definition example_fs :: filesystem where
  "example_fs = [''example.pdb'' \<mapsto> example_pdb_lines, ''cut.pdb'' \<mapsto> example_cut_lines]"

section \<open>Examples for the drivers\<close>

text \<open>The example file system with a score file for the pair AC in the directory
  \<^verbatim>\<open>scores\<close>: twenty lines \<^verbatim>\<open>10.0000\<close>.\<close>

definition example_scored_fs :: filesystem where
  "example_scored_fs = example_fs(''scores/AC.txt'' \<mapsto> replicate 20 (''10.0000'' @ [CHR 0x0A]))"

section \<open>Vocabulary of the end-to-end claims\<close>

text \<open>A pair key occurs in a structure when two of its residues are counted by the
  histogram builder under that key (same chain, at least three positions apart, distance
  below twenty).\<close>

definition pair_occurs :: "string \<Rightarrow> residue list \<Rightarrow> bool" where
  "pair_occurs pair rs =
     list_ex (\<lambda>r1. list_ex (\<lambda>r2. counted r1 r2 \<and> pair_key (res_name r1) (res_name r2) = pair) rs) rs"

section \<open>Vocabulary of the codec claim\<close>

text \<open>The number that the four-decimal text written for \<open>x\<close> denotes.\<close>

definition round4 :: "real \<Rightarrow> real" where
  "round4 x =
     (if x < 0 then - (real (nat (round_half_even (\<bar>x\<bar> * 10000))) / 10000)
      else real (nat (round_half_even (\<bar>x\<bar> * 10000))) / 10000)"




section \<open>Counting lemmas\<close>

lemma ordered_count_card:
  "sum_list (map (\<lambda>a. length (filter (P a) xs)) xs)
     = card {(i, j). i < length xs \<and> j < length xs \<and> P (xs ! i) (xs ! j)}"
proof -
  have "sum_list (map (\<lambda>a. length (filter (P a) xs)) xs)
          = (\<Sum>i = 0..<length xs. card {j. j < length xs \<and> P (xs ! i) (xs ! j)})"
    by (simp add: sum_list_sum_nth length_filter_conv_card)
  also have "\<dots> = card (SIGMA i : {0..<length xs}. {j. j < length xs \<and> P (xs ! i) (xs ! j)})"
    by simp
  also have "(SIGMA i : {0..<length xs}. {j. j < length xs \<and> P (xs ! i) (xs ! j)})
          = {(i, j). i < length xs \<and> j < length xs \<and> P (xs ! i) (xs ! j)}"
    by auto
  finally show ?thesis .
qed

lemma symmetric_count_twice:
  assumes sym: "\<And>a b. P a b \<Longrightarrow> P b a" and irrefl: "\<And>a. \<not> P a a"
  shows "card {(i, j). i < length xs \<and> j < length xs \<and> P (xs ! i) (xs ! j)}
           = 2 * card {(i, j). i < j \<and> j < length xs \<and> P (xs ! i) (xs ! j)}"
proof -
  let ?n = "length xs"
  let ?A = "{(i, j). i < ?n \<and> j < ?n \<and> P (xs ! i) (xs ! j)}"
  let ?L = "{(i, j). i < j \<and> j < ?n \<and> P (xs ! i) (xs ! j)}"
  let ?U = "{(i, j). j < i \<and> i < ?n \<and> P (xs ! i) (xs ! j)}"
  have fin: "finite ?L" "finite ?U"
    by (rule finite_subset [of _ "{..<?n} \<times> {..<?n}"], auto)+
  have "i \<noteq> j" if "P (xs ! i) (xs ! j)" for i j
    using that irrefl by auto
  then have split: "?A = ?L \<union> ?U"
    by (auto simp: nat_neq_iff)
  have disj: "?L \<inter> ?U = {}" by auto
  have "?U = prod.swap ` ?L"
    using sym by (auto simp: image_iff)
  then have "card ?U = card ?L"
    by (simp add: card_image)
  then show ?thesis
    using fin disj by (simp add: split card_Un_disjoint)
qed

lemma filter_product_card:
  "length (filter (\<lambda>(i, j). i < j \<and> Q i j) (List.product [0..<n] [0..<n]))
     = card {(i, j). i < j \<and> j < n \<and> Q i j}"
proof -
  have "length (filter (\<lambda>(i, j). i < j \<and> Q i j) (List.product [0..<n] [0..<n]))
          = card ({p. case p of (i, j) \<Rightarrow> i < j \<and> Q i j} \<inter> set (List.product [0..<n] [0..<n]))"
    by (rule distinct_length_filter) (simp add: distinct_product)
  also have "{p. case p of (i, j) \<Rightarrow> i < j \<and> Q i j} \<inter> set (List.product [0..<n] [0..<n])
          = {(i, j). i < j \<and> j < n \<and> Q i j}"
    by auto
  finally show ?thesis .
qed

section \<open>Distances, bins and pair keys\<close>

lemma euclid_sym: "euclid c1 c2 = euclid c2 c1"
  by (cases c1; cases c2) (simp add: euclid_def power2_commute)

lemma bin_index_sym: "bin_index r1 r2 = bin_index r2 r1"
  by (simp add: bin_index_def euclid_sym)

lemma bin_index_nonneg: "0 \<le> bin_index r1 r2"
  by (cases "coord r1"; cases "coord r2") (simp add: bin_index_def euclid_def)

lemma pair_key_sym: "pair_key n1 n2 = pair_key n2 n1"
  by (auto simp: pair_key_def)

lemma pair_key_valid:
  "n1 \<in> set VALID_RESIDUES \<Longrightarrow> n2 \<in> set VALID_RESIDUES \<Longrightarrow> pair_key n1 n2 \<in> set VALID_PAIRS"
  by (auto simp: VALID_RESIDUES_def VALID_PAIRS_def pair_key_def)

lemma passes_guards_sym: "passes_guards r1 r2 \<Longrightarrow> passes_guards r2 r1"
  by (simp add: passes_guards_def bin_index_sym abs_minus_commute)

lemma passes_guards_irrefl: "\<not> passes_guards r r"
  by (simp add: passes_guards_def)

lemma counted_sym: "counted r1 r2 \<Longrightarrow> counted r2 r1"
  by (simp add: counted_def passes_guards_sym pair_key_sym)

lemma counted_irrefl: "\<not> counted r r"
  by (simp add: counted_def passes_guards_irrefl)

text \<open>The code's distance, bin and key against the specification's.\<close>

lemma euclid_euclidean_distance: "euclid c1 c2 = euclidean_distance c1 c2"
  by (cases c1; cases c2) (simp add: euclid_def euclidean_distance_def power2_commute)

lemma passes_guards_qualifies: "passes_guards r1 r2 = qualifies r1 r2"
  by (simp add: passes_guards_def qualifies_def bin_index_def euclid_euclidean_distance
      abs_minus_commute)

lemma pair_key_canonical_key: "pair_key n1 n2 = canonical_key n1 n2"
  by (auto simp: pair_key_def canonical_key_def)

lemma counted_spec: "counted r1 r2 = (qualifies r1 r2 \<and> has_valid_key r1 r2)"
  by (simp add: counted_def passes_guards_qualifies has_valid_key_def pair_key_canonical_key)

lemma has_valid_key_valid: "valid_residue r1 \<Longrightarrow> valid_residue r2 \<Longrightarrow> has_valid_key r1 r2"
  by (simp add: has_valid_key_def valid_residue_def pair_key_valid
      pair_key_canonical_key [symmetric])

lemma keyed_qualifying_pairs_card:
  "length (keyed_qualifying_pairs rs)
     = card {(i, j). i < j \<and> j < length rs \<and> counted (rs ! i) (rs ! j)}"
proof -
  have "keyed_qualifying_pairs rs
          = filter (\<lambda>(i, j). i < j \<and> counted (rs ! i) (rs ! j))
              (List.product [0..<length rs] [0..<length rs])"
    unfolding keyed_qualifying_pairs_def qualifying_pairs_def unordered_pairs_def filter_filter
    by (rule filter_cong) (auto simp: counted_spec)
  then show ?thesis
    by (simp only: filter_product_card)
qed

lemma keyed_qualifying_pairs_valid:
  assumes "list_all valid_residue rs"
  shows "keyed_qualifying_pairs rs = qualifying_pairs rs"
proof -
  have "has_valid_key (rs ! i) (rs ! j)" if "(i, j) \<in> set (qualifying_pairs rs)" for i j
    using that assms
    by (intro has_valid_key_valid)
      (auto simp: qualifying_pairs_def unordered_pairs_def list_all_length)
  then show ?thesis
    unfolding keyed_qualifying_pairs_def by (intro filter_True) auto
qed

section \<open>The total of a histogram under the loop\<close>

lemma sum_list_bump_bins:
  "i < length bins \<Longrightarrow> sum_list (bins[i := bins ! i + a]) = sum_list bins + (a::nat)"
  by (simp add: sum_list_update)

lemma hist_total_bump:
  assumes "i < length dflt" "sum_list dflt = 0"
    and "list_all (\<lambda>(pair, bins). i < length bins) d"
  shows "hist_total (bump dflt k i a d) = hist_total d + a"
  using assms(3)
proof (induction d)
  case Nil
  show ?case using assms(1,2) by (simp add: hist_total_def bump_def sum_list_bump_bins)
next
  case (Cons p d)
  then show ?case
    by (cases p) (auto simp: hist_total_def bump_def sum_list_bump_bins)
qed

lemma twenty_bins_bump:
  "twenty_bins d \<Longrightarrow> length dflt = 20 \<Longrightarrow> twenty_bins (bump dflt k i a d)"
  unfolding twenty_bins_def bump_def
  by (induction d) auto

lemma count_pair_total:
  assumes "twenty_bins d"
  shows "hist_total (count_pair r1 d r2) = hist_total d + (if counted r1 r2 then 1 else 0)"
    and "twenty_bins (count_pair r1 d r2)"
proof -
  have in_range: "list_all (\<lambda>(pair, bins). nat (bin_index r1 r2) < length bins) d"
    if "bin_index r1 r2 < 20"
    using assms that by (auto simp: twenty_bins_def list_all_iff)
  show "hist_total (count_pair r1 d r2) = hist_total d + (if counted r1 r2 then 1 else 0)"
    using in_range
    by (simp add: count_pair_def counted_def passes_guards_def Let_def hist_total_bump
        initialize_counts_def)
  show "twenty_bins (count_pair r1 d r2)"
    using assms by (simp add: count_pair_def Let_def twenty_bins_bump initialize_counts_def)
qed

lemma inner_loop_total:
  "twenty_bins d \<Longrightarrow>
     hist_total (foldl (count_pair r1) d rs) = hist_total d + length (filter (counted r1) rs)
     \<and> twenty_bins (foldl (count_pair r1) d rs)"
  by (induction rs arbitrary: d) (simp_all add: count_pair_total)

lemma outer_loop_total:
  "twenty_bins d \<Longrightarrow>
     hist_total (foldl (\<lambda>distances r1. foldl (count_pair r1) distances rs) d qs)
       = hist_total d + sum_list (map (\<lambda>r1. length (filter (counted r1) rs)) qs)
     \<and> twenty_bins (foldl (\<lambda>distances r1. foldl (count_pair r1) distances rs) d qs)"
  by (induction qs arbitrary: d) (simp_all add: inner_loop_total)

lemma compute_distances_total:
  "hist_total (compute_distances rs) = sum_list (map (\<lambda>r1. length (filter (counted r1) rs)) rs)"
  using outer_loop_total [of "[]" rs rs]
  by (simp add: compute_distances_def twenty_bins_def hist_total_def)

lemma compute_distances_twenty_bins: "twenty_bins (compute_distances rs)"
  using outer_loop_total [of "[]" rs rs]
  by (simp add: compute_distances_def twenty_bins_def)

lemma compute_distances_counted:
  "hist_total (compute_distances rs)
     = 2 * card {(i, j). i < j \<and> j < length rs \<and> counted (rs ! i) (rs ! j)}"
  by (simp only: compute_distances_total ordered_count_card
      symmetric_count_twice [of counted, OF counted_sym counted_irrefl])

section \<open>The two histogram loops agree; built histograms have positive totals\<close>

lemma count_pair_scoring_eq: "count_pair_scoring r1 d r2 = count_pair r1 d r2"
  by (simp add: count_pair_scoring_def count_pair_def bin_index_def initialize_counts_def Let_def)

lemma scoring_distances_eq: "scoring_distances rs = compute_distances rs"
proof -
  have "count_pair_scoring = count_pair"
    by (intro ext) (rule count_pair_scoring_eq)
  then show ?thesis
    by (simp add: scoring_distances_def compute_distances_def)
qed

lemma sum_list_bump_pos:
  "i < length bins \<Longrightarrow> 0 < a \<Longrightarrow> 0 < sum_list (bins[i := bins ! i + (a::nat)])"
  by (simp add: sum_list_bump_bins)

lemma positive_totals_bump:
  assumes "i < length dflt" "0 < a"
    and "list_all (\<lambda>(pair, bins). i < length bins) d" "positive_totals d"
  shows "positive_totals (bump dflt k i a d)"
  using assms(3,4)
proof (induction d)
  case Nil
  show ?case using assms(1,2)
    by (simp add: positive_totals_def bump_def sum_list_bump_pos)
next
  case (Cons p d)
  then show ?case using assms(2)
    by (cases p) (auto simp: positive_totals_def bump_def sum_list_bump_pos)
qed

lemma count_pair_positive:
  assumes "twenty_bins d" "positive_totals d"
  shows "positive_totals (count_pair r1 d r2)"
proof -
  have in_range: "list_all (\<lambda>(pair, bins). nat (bin_index r1 r2) < length bins) d"
    if "bin_index r1 r2 < 20"
    using assms(1) that by (auto simp: twenty_bins_def list_all_iff)
  show ?thesis
    using in_range assms(2) positive_totals_bump [of "nat (bin_index r1 r2)" initialize_counts 1 d]
    by (simp add: count_pair_def Let_def initialize_counts_def)
qed

lemma inner_loop_positive:
  "twenty_bins d \<Longrightarrow> positive_totals d \<Longrightarrow> positive_totals (foldl (count_pair r1) d rs)"
  by (induction rs arbitrary: d) (simp_all add: count_pair_total count_pair_positive)

lemma outer_loop_positive:
  "twenty_bins d \<Longrightarrow> positive_totals d \<Longrightarrow>
     positive_totals (foldl (\<lambda>distances r1. foldl (count_pair r1) distances rs) d qs)"
  by (induction qs arbitrary: d) (simp_all add: inner_loop_total inner_loop_positive)

lemma compute_distances_positive: "positive_totals (compute_distances rs)"
  using outer_loop_positive [of "[]" rs rs]
  by (simp add: compute_distances_def twenty_bins_def positive_totals_def)

section \<open>Aggregation of built histograms\<close>

lemma twenty_bins_lookup:
  "twenty_bins d \<Longrightarrow> map_of d k = Some bins \<Longrightarrow> length bins = 20"
  by (auto simp: twenty_bins_def list_all_iff dest: map_of_SomeD)

lemma add_count_in_range:
  assumes "twenty_bins d" "i < 20"
  shows "add_count pair d (i, c) = Inr (bump (replicate 20 0) pair i c d)"
  using assms
  by (auto simp: add_count_def Let_def split: option.splits dest: twenty_bins_lookup)

lemma key_total_bump:
  assumes "twenty_bins d" "i < 20"
  shows "key_total (bump (replicate 20 0) pair i c d) k
           = key_total d k + (if k = pair then c else 0)"
  using assms
  by (auto simp: key_total_def bump_def map_of_map_default sum_list_bump_bins sum_list_update
      split: option.splits dest: twenty_bins_lookup)

lemma keys_bump: "fst ` set (bump dflt pair i c d) = insert pair (fst ` set d)"
  by (simp add: bump_def dom_map_default)

lemma distinct_bump: "distinct (map fst d) \<Longrightarrow> distinct (map fst (bump dflt pair i c d))"
  by (simp add: bump_def distinct_map_default)

lemma add_counts_loop:
  assumes "twenty_bins d" "n + length cs \<le> 20"
  shows "\<exists>d'. fold_err (add_count pair) d (enumerate n cs) = Inr d'
           \<and> twenty_bins d'
           \<and> (distinct (map fst d) \<longrightarrow> distinct (map fst d'))
           \<and> (\<forall>k. key_total d' k = key_total d k + (if k = pair then sum_list cs else 0))
           \<and> fst ` set d' = (if cs = [] then fst ` set d else insert pair (fst ` set d))"
  using assms
proof (induction cs arbitrary: n d)
  case Nil
  then show ?case by simp
next
  case (Cons c cs)
  let ?d1 = "bump (replicate 20 0) pair n c d"
  have n: "n < 20" using Cons.prems(2) by simp
  have step: "add_count pair d (n, c) = Inr ?d1"
    using Cons.prems(1) n by (rule add_count_in_range)
  have tb: "twenty_bins ?d1"
    using Cons.prems(1) by (simp add: twenty_bins_bump)
  have "Suc n + length cs \<le> 20" using Cons.prems(2) by simp
  from Cons.IH [OF tb this] obtain d' where d':
    "fold_err (add_count pair) ?d1 (enumerate (Suc n) cs) = Inr d'"
    "twenty_bins d'"
    "distinct (map fst ?d1) \<longrightarrow> distinct (map fst d')"
    "\<forall>k. key_total d' k = key_total ?d1 k + (if k = pair then sum_list cs else 0)"
    "fst ` set d' = (if cs = [] then fst ` set ?d1 else insert pair (fst ` set ?d1))"
    by blast
  have "fold_err (add_count pair) d (enumerate n (c # cs)) = Inr d'"
    using step d'(1) by simp
  moreover have "distinct (map fst d) \<longrightarrow> distinct (map fst d')"
    using d'(3) by (simp add: distinct_bump)
  moreover have "\<forall>k. key_total d' k = key_total d k + (if k = pair then sum_list (c # cs) else 0)"
    using d'(4) key_total_bump [OF Cons.prems(1) n] by simp
  moreover have "fst ` set d' = insert pair (fst ` set d)"
    using d'(5) by (simp add: keys_bump)
  ultimately show ?case
    using d'(2) by simp
qed

lemma add_entry_inv:
  assumes "agg_inv d" "length bins = 20" "0 < sum_list bins"
  shows "\<exists>d'. add_entry d (pair, bins) = Inr d' \<and> agg_inv d'"
proof (cases "pair \<in> set VALID_PAIRS")
  case False
  then show ?thesis using assms(1) by (simp add: add_entry_def)
next
  case True
  have tb: "twenty_bins d" using assms(1) by (simp add: agg_inv_def)
  have "0 + length bins \<le> 20" using assms(2) by simp
  from add_counts_loop [OF tb this, of pair] obtain d' where d':
    "fold_err (add_count pair) d (enumerate 0 bins) = Inr d'"
    "twenty_bins d'"
    "distinct (map fst d) \<longrightarrow> distinct (map fst d')"
    "\<forall>k. key_total d' k = key_total d k + (if k = pair then sum_list bins else 0)"
    "fst ` set d' = (if bins = [] then fst ` set d else insert pair (fst ` set d))"
    by blast
  have "agg_inv d'"
    using d'(2-5) assms by (auto simp: agg_inv_def)
  then show ?thesis
    using True d'(1) by (simp add: add_entry_def)
qed

lemma add_entries_inv:
  assumes "agg_inv d" "twenty_bins h" "positive_totals h"
  shows "\<exists>d'. fold_err add_entry d h = Inr d' \<and> agg_inv d'"
  using assms
proof (induction h arbitrary: d)
  case Nil
  then show ?case by simp
next
  case (Cons e h)
  obtain pair bins where e: "e = (pair, bins)" by (cases e)
  have "length bins = 20" "0 < sum_list bins"
    using Cons.prems(2,3) by (simp_all add: e twenty_bins_def positive_totals_def)
  from add_entry_inv [OF Cons.prems(1) this] obtain d1 where
    d1: "add_entry d (pair, bins) = Inr d1" "agg_inv d1" by blast
  have "twenty_bins h" "positive_totals h"
    using Cons.prems(2,3) by (simp_all add: twenty_bins_def positive_totals_def)
  from Cons.IH [OF d1(2) this] show ?case
    using d1(1) by (simp add: e)
qed

lemma aggregate_loop_inv:
  assumes "agg_inv d" "list_all twenty_bins hs" "list_all positive_totals hs"
  shows "\<exists>d'. fold_err (\<lambda>combined_counts distances. fold_err add_entry combined_counts distances)
                 d hs = Inr d' \<and> agg_inv d'"
  using assms
proof (induction hs arbitrary: d)
  case Nil
  then show ?case by simp
next
  case (Cons h hs)
  from add_entries_inv [of d h] Cons.prems obtain d1 where
    d1: "fold_err add_entry d h = Inr d1" "agg_inv d1" by auto
  from Cons.IH [OF d1(2)] Cons.prems show ?case
    using d1(1) by simp
qed

lemma agg_inv_positive: "agg_inv d \<Longrightarrow> positive_totals d"
  unfolding agg_inv_def positive_totals_def list_all_iff
  by (auto simp: key_total_def rev_image_eqI)

lemma aggregate_positive:
  "\<exists>d. aggregate_counts (map compute_distances rss) = Inr d \<and> positive_totals d"
proof -
  have "agg_inv []" by (simp add: agg_inv_def twenty_bins_def)
  moreover have "list_all twenty_bins (map compute_distances rss)"
    by (simp add: list_all_iff compute_distances_twenty_bins)
  moreover have "list_all positive_totals (map compute_distances rss)"
    by (simp add: list_all_iff compute_distances_positive)
  ultimately obtain d where "aggregate_counts (map compute_distances rss) = Inr d" "agg_inv d"
    unfolding aggregate_counts_def using aggregate_loop_inv by blast
  then show ?thesis
    using agg_inv_positive by blast
qed

section \<open>Aggregation does not depend on the order of the histograms\<close>

lemma fold_err_append:
  "fold_err f s (xs @ ys) = (case fold_err f s xs of Inl e \<Rightarrow> Inl e | Inr s' \<Rightarrow> fold_err f s' ys)"
  by (induction xs arbitrary: s) (simp_all split: sum.splits)

lemma fold_err_concat:
  "fold_err (\<lambda>s x. fold_err f s (g x)) s xs = fold_err f s (concat (map g xs))"
  by (induction xs arbitrary: s) (simp_all add: fold_err_append split: sum.splits)

lemma fold_err_map: "fold_err f s (map g xs) = fold_err (\<lambda>s x. f s (g x)) s xs"
  by (induction xs arbitrary: s) (simp_all split: sum.splits)

lemma add_entry_steps:
  "add_entry d entry = fold_err (\<lambda>d (pair, ic). add_count pair d ic) d (steps_of_entry entry)"
  by (cases entry) (simp add: add_entry_def steps_of_entry_def fold_err_map)

lemma aggregate_counts_steps:
  "aggregate_counts hs = fold_err (\<lambda>d (pair, ic). add_count pair d ic) [] (steps_of hs)"
proof -
  have ae: "add_entry = (\<lambda>d entry. fold_err (\<lambda>d (pair, ic). add_count pair d ic) d
                           (steps_of_entry entry))"
    by (intro ext) (rule add_entry_steps)
  have "aggregate_counts hs = fold_err add_entry [] (concat hs)"
    unfolding aggregate_counts_def using fold_err_concat [of add_entry "\<lambda>h. h" "[]" hs] by simp
  also have "\<dots> = fold_err (\<lambda>d entry. fold_err (\<lambda>d (pair, ic). add_count pair d ic) d
                        (steps_of_entry entry)) [] (concat hs)"
    by (subst ae) (rule refl)
  also have "\<dots> = fold_err (\<lambda>d (pair, ic). add_count pair d ic) [] (steps_of hs)"
    unfolding steps_of_def by (rule fold_err_concat)
  finally show ?thesis .
qed

lemma map_of_bump:
  "map_of (bump (replicate 20 0) pair i c d)
     = (map_of d)(pair \<mapsto> (bins_of (map_of d) pair)[i := bins_of (map_of d) pair ! i + c])"
  by (auto simp: bump_def map_of_map_default bins_of_def split: option.splits)

lemma add_count_astep:
  "map_sum id map_of (add_count pair d (i, c)) = astep (pair, i, c) (Inr (map_of d))"
  by (simp add: add_count_def Let_def map_of_bump bins_of_def)

lemma astep_Inl: "astep x (Inl e) = Inl e"
  by (cases x) simp

lemma fold_astep_Inl: "fold astep xs (Inl e) = Inl e"
  by (induction xs) (simp_all add: astep_Inl)

lemma fold_err_astep:
  "map_sum id map_of (fold_err (\<lambda>d (pair, ic). add_count pair d ic) d xs)
     = fold astep xs (Inr (map_of d))"
proof (induction xs arbitrary: d)
  case Nil
  show ?case by simp
next
  case (Cons x xs)
  obtain pair i c where x: "x = (pair, i, c)" by (cases x)
  show ?case
  proof (cases "add_count pair d (i, c)")
    case (Inl e)
    then show ?thesis
      using add_count_astep [of pair d i c, symmetric] by (simp add: x fold_astep_Inl)
  next
    case (Inr d')
    then show ?thesis
      using add_count_astep [of pair d i c, symmetric] Cons.IH [of d'] by (simp add: x)
  qed
qed

lemma astep_commute: "astep x (astep y s) = astep y (astep x s)"
proof (cases s)
  case (Inl e)
  then show ?thesis by (simp add: astep_Inl)
next
  case (Inr m)
  obtain p i c where x: "x = (p, i, c)" by (cases x)
  obtain q j e where y: "y = (q, j, e)" by (cases y)
  show ?thesis
  proof (cases "p = q")
    case False
    then show ?thesis
      by (auto simp: Inr x y bins_of_def fun_upd_twist)
  next
    case True
    show ?thesis
    proof (cases "i = j")
      case True
      with \<open>p = q\<close> show ?thesis
        by (auto simp: Inr x y bins_of_def add.commute add.left_commute)
    next
      case False
      with \<open>p = q\<close> show ?thesis
        by (auto simp: Inr x y bins_of_def list_update_swap)
    qed
  qed
qed

lemma steps_of_mset: "mset hs = mset hs' \<Longrightarrow> mset (steps_of hs) = mset (steps_of hs')"
proof -
  have concat_mset: "mset (concat xss) = mset (concat yss)" if "mset xss = mset yss"
    for xss yss :: "'a list list"
  proof -
    have "sum_mset (image_mset mset (mset xss)) = sum_mset (image_mset mset (mset yss))"
      using that by simp
    then show ?thesis
      by (simp add: mset_concat flip: sum_mset_sum_list)
  qed
  assume "mset hs = mset hs'"
  then have "mset (concat hs) = mset (concat hs')"
    by (rule concat_mset)
  then have "mset (map steps_of_entry (concat hs)) = mset (map steps_of_entry (concat hs'))"
    by simp
  then show ?thesis
    unfolding steps_of_def by (rule concat_mset)
qed

section \<open>The capped log-odds score\<close>

lemma bin_score_spec: "bin_score cnt tot = min (raw_score (observed_freq cnt tot)) 10"
  by (simp add: bin_score_def raw_score_def observed_freq_def Let_def)

lemma observed_freq_nonneg: "0 \<le> observed_freq cnt tot"
  by (simp add: observed_freq_def)

lemma capped_eq_10_iff:
  assumes "0 \<le> f"
  shows "min (raw_score f) 10 = 10 \<longleftrightarrow> f = 0 \<or> f \<le> exp (- 10) / 20"
proof (cases "f = 0")
  case True
  then show ?thesis by (simp add: raw_score_def)
next
  case False
  then have pos: "0 < f" using assms by simp
  have "min (raw_score f) 10 = 10 \<longleftrightarrow> 10 \<le> raw_score f"
    by (simp add: min_def)
  also have "\<dots> \<longleftrightarrow> ln (20 * f) \<le> - 10"
    using pos by (auto simp: raw_score_def mult.commute)
  also have "\<dots> \<longleftrightarrow> ln (20 * f) \<le> ln (exp (- 10))"
    by simp
  also have "\<dots> \<longleftrightarrow> 20 * f \<le> exp (- 10)"
    using pos by (intro ln_le_cancel_iff) simp_all
  also have "\<dots> \<longleftrightarrow> f \<le> exp (- 10) / 20"
    by (simp add: field_simps)
  finally show ?thesis using False by simp
qed

lemma exp_10_bound: "exp (10::real) \<le> 59049"
proof -
  have "exp (10::real) = exp (of_nat 10 * 1)" by simp
  also have "\<dots> = exp 1 ^ 10" by (rule exp_of_nat_mult)
  also have "\<dots> \<le> 3 ^ 10"
    by (intro power_mono) (simp_all add: exp_le)
  finally show ?thesis by simp
qed

lemma tiny_freq: "observed_freq 2 4000002 \<le> exp (- 10) / 20"
proof -
  have "exp (10::real) \<le> 4000002 / 40"
    using exp_10_bound by simp
  then have "40 / 4000002 \<le> inverse (exp (10::real))"
    by (simp add: field_simps)
  then show ?thesis
    by (simp add: observed_freq_def exp_minus)
qed

lemma map_of_calculate_scores:
  "map_of (calculate_scores d) pair
     = map_option (\<lambda>counts. map (\<lambda>cnt. bin_score cnt (sum_list counts)) counts) (map_of d pair)"
  by (simp add: calculate_scores_def map_of_map)

lemma example_rare_lookup:
  "map_of example_rare ''AA''
     = Some [2, 4000000, 0, 0, 0, 0, 0, 0, 0, 0, 0, 0, 0, 0, 0, 0, 0, 0, 0, 0]"
  by (simp add: example_rare_def)

section \<open>The scorer sums capped log-odds of the structure's own counts\<close>

lemma foldl_add_sum_list:
  "foldl (\<lambda>acc x. acc + f x) a xs = a + sum_list (map f xs)" for a :: real
  by (induction xs arbitrary: a) simp_all

lemma scoring_formula_spec:
  assumes "cnt \<in> set bins"
  shows "(let obs = (if sum_list bins > 0 then real cnt / real (sum_list bins) else 0);
              ref_freq = 1 / 20;
              score = (if obs > 0 then - ln (obs / ref_freq) else 10)
          in min score 10) = capped_log_odds cnt (sum_list bins)"
proof -
  have "cnt \<le> sum_list bins"
    using assms by (simp add: member_le_sum_list)
  then show ?thesis
    by (cases "cnt = 0") (simp_all add: capped_log_odds_def Let_def)
qed

lemma pair_score_spec:
  "pair_score bins = (\<Sum>cnt\<leftarrow>bins. capped_log_odds cnt (sum_list bins))"
proof -
  have "pair_score bins
          = sum_list (map (\<lambda>cnt. let obs =
                                  (if sum_list bins > 0 then real cnt / real (sum_list bins) else 0);
                                ref_freq = 1 / 20;
                                score = (if obs > 0 then - ln (obs / ref_freq) else 10)
                            in min score 10) bins)"
    unfolding pair_score_def Let_def by (simp add: foldl_add_sum_list)
  also have "\<dots> = (\<Sum>cnt\<leftarrow>bins. capped_log_odds cnt (sum_list bins))"
    by (intro arg_cong [of _ _ sum_list] map_cong refl scoring_formula_spec)
  finally show ?thesis .
qed

lemma pair_score_bins:
  "length bins = 20 \<Longrightarrow> pair_score bins = (\<Sum>i<20. capped_log_odds (bins ! i) (sum_list bins))"
  by (simp add: pair_score_spec sum_list_sum_nth atLeast0LessThan)

lemma count_pair_distinct:
  "distinct (map fst d) \<Longrightarrow> distinct (map fst (count_pair r1 d r2))"
  by (simp add: count_pair_def Let_def distinct_bump)

lemma inner_loop_distinct:
  "distinct (map fst d) \<Longrightarrow> distinct (map fst (foldl (count_pair r1) d rs))"
  by (induction rs arbitrary: d) (simp_all add: count_pair_distinct)

lemma outer_loop_distinct:
  "distinct (map fst d) \<Longrightarrow>
     distinct (map fst (foldl (\<lambda>distances r1. foldl (count_pair r1) distances rs) d qs))"
  by (induction qs arbitrary: d) (simp_all add: inner_loop_distinct)

lemma compute_distances_distinct: "distinct (map fst (compute_distances rs))"
  unfolding compute_distances_def by (rule outer_loop_distinct) simp

lemma sum_list_entries_keys:
  fixes g :: "'k \<Rightarrow> 'v \<Rightarrow> real"
  assumes "distinct (map fst d)"
  shows "(\<Sum>(k, v)\<leftarrow>d. g k v) = (\<Sum>k \<in> fst ` set d. g k (the (map_of d k)))"
proof -
  have "map (\<lambda>(k, v). g k v) d = map (\<lambda>e. g (fst e) (the (map_of d (fst e)))) d"
    using assms by (intro map_cong refl) (auto simp: map_of_is_SomeI)
  then have "(\<Sum>(k, v)\<leftarrow>d. g k v) = (\<Sum>e\<leftarrow>d. g (fst e) (the (map_of d (fst e))))"
    by (rule arg_cong)
  also have "\<dots> = (\<Sum>k\<leftarrow>map fst d. g k (the (map_of d k)))"
    by (simp add: comp_def)
  also have "\<dots> = (\<Sum>k \<in> set (map fst d). g k (the (map_of d k)))"
    using assms by (rule sum_list_distinct_conv_sum_set)
  finally show ?thesis by simp
qed

lemma example_histogram: "compute_distances example_residues = example_hist_AC"
proof -
  have b: "bin_index (example_residues ! 0) (example_residues ! 1) = 3"
          "bin_index (example_residues ! 1) (example_residues ! 0) = 3"
    by (simp_all add: example_residues_def bin_index_def euclid_def)
  show ?thesis
    using b
    by (simp add: compute_distances_def count_pair_def example_residues_def pair_key_def
        VALID_PAIRS_def bump_def initialize_counts_def example_hist_AC_def numeral_eq_Suc)
qed

section \<open>The parser on well-formed and on malformed records\<close>

lemmas str_defs = py_strip_def strip_with_def is_space_def is_num_space_def slice_def startswith_def
  is_digit_def digit_val_def digits_ok_def digits_val_def split_sign_def split_at_def lower_def
  C3_prime_def VALID_RESIDUES_def

lemma parse_line_irrelevant: "\<not> relevant line \<Longrightarrow> parse_line line = Inr None"
  unfolding parse_line_def relevant_def by (rule if_not_P)

lemma parse_line_well_formed:
  assumes "relevant line" "well_formed line"
  shows "parse_line line = Inr (if retained line then Some (residue_of line) else None)"
proof -
  obtain rid where rid: "py_int (py_strip (slice 22 26 line)) = Inr rid"
    using assms(2) by (cases "py_int (py_strip (slice 22 26 line))") (simp_all add: well_formed_def)
  show ?thesis
  proof (cases "py_strip (slice 17 20 line) \<in> set VALID_RESIDUES")
    case False
    then show ?thesis
      using assms rid by (simp add: parse_line_def relevant_def well_formed_def retained_def)
  next
    case True
    obtain x y z where xyz: "py_float (slice 30 38 line) = Inr x"
      "py_float (slice 38 46 line) = Inr y" "py_float (slice 46 54 line) = Inr z"
      using assms(2) True
      by (cases "py_float (slice 30 38 line)"; cases "py_float (slice 38 46 line)";
          cases "py_float (slice 46 54 line)") (simp_all add: well_formed_def)
    show ?thesis
      using assms rid xyz True
      by (simp add: parse_line_def relevant_def well_formed_def retained_def residue_of_def)
  qed
qed

lemma parse_lines_loop:
  assumes "list_all (\<lambda>line. relevant line \<longrightarrow> well_formed line) lines"
  shows "fold_err (\<lambda>residues line.
                 case parse_line line of
                   Inl e \<Rightarrow> Inl e
                 | Inr None \<Rightarrow> Inr residues
                 | Inr (Some r) \<Rightarrow> Inr (residues @ [r]))
           acc lines = Inr (acc @ map residue_of (filter retained lines))"
  using assms
proof (induction lines arbitrary: acc)
  case Nil
  show ?case by simp
next
  case (Cons line lines)
  show ?case
  proof (cases "relevant line")
    case False
    then have "\<not> retained line" by (simp add: retained_def)
    then show ?thesis
      using Cons False by (simp add: parse_line_irrelevant)
  next
    case True
    then have "well_formed line" using Cons.prems by simp
    then show ?thesis
      using Cons True by (simp add: parse_line_well_formed)
  qed
qed


lemma example_lines_facts:
  "\<not> relevant (example_pdb_lines ! 0)"
  "relevant (example_pdb_lines ! 1)" "well_formed (example_pdb_lines ! 1)"
  "\<not> relevant (example_pdb_lines ! 2)"
  "relevant (example_pdb_lines ! 3)" "well_formed (example_pdb_lines ! 3)"
  "relevant (example_pdb_lines ! 4)" "well_formed (example_pdb_lines ! 4)"
  by (simp_all add: example_pdb_lines_def relevant_def well_formed_def py_int_def py_float_def str_defs)


lemma example_lines_residues:
  "map residue_of (filter retained example_pdb_lines) = example_residues"
  by (simp add: example_pdb_lines_def example_residues_def retained_def relevant_def
      residue_of_def py_int_def py_float_def str_defs)



section \<open>The evaluation driver\<close>

lemma evaluate_loop:
  assumes "map (parse_pdb fs) pdb_files = map Inr rss"
  shows "fold_err (\<lambda>total_gibbs_energy pdb_file.
                     case parse_pdb fs pdb_file of
                       Inl e \<Rightarrow> Inl e
                     | Inr residues \<Rightarrow>
                         Inr (total_gibbs_energy + compute_distances_and_scores residues scores))
           acc pdb_files
         = Inr (acc + (\<Sum>rs\<leftarrow>rss. compute_distances_and_scores rs scores))"
  using assms
proof (induction pdb_files arbitrary: acc rss)
  case Nil
  then show ?case by simp
next
  case (Cons f fs')
  then obtain rs rss' where "rss = rs # rss'" "parse_pdb fs f = Inr rs"
    "map (parse_pdb fs) fs' = map Inr rss'"
    by (cases rss) auto
  then show ?case
    using Cons.IH [of rss'] by (simp add: add.assoc)
qed

lemma example_line: "py_float (py_strip (''10.0000'' @ [CHR 0x0A])) = Inr 10"
  by (simp add: py_float_def str_defs)


lemma read_floats_loop:
  assumes "list_all (\<lambda>p. py_float (py_strip (fst p)) = Inr (snd p)) lvs"
  shows "fold_err (\<lambda>vals line.
                 case py_float (py_strip line) of
                   Inl e \<Rightarrow> Inl e
                 | Inr v \<Rightarrow> Inr (vals @ [v]))
           acc (map fst lvs) = Inr (acc @ map snd lvs)"
  using assms by (induction lvs arbitrary: acc) simp_all

lemma read_floats_map:
  assumes "list_all (\<lambda>x. py_float (py_strip (f x)) = Inr (g x)) xs"
  shows "read_floats (map f xs) = Inr (map g xs)"
  using read_floats_loop [of "map (\<lambda>x. (f x, g x)) xs" "[]"] assms
  by (simp add: read_floats_def comp_def list_all_iff)

lemma example_read_floats:
  "read_floats (replicate 20 (''10.0000'' @ [CHR 0x0A])) = Inr (replicate 20 10)"
  using read_floats_map [of "\<lambda>x. ''10.0000'' @ [CHR 0x0A]" "\<lambda>x. 10" "replicate 20 ()"] example_line
  by (simp add: list_all_iff map_replicate_const)

lemma example_score_files:
  "map (\<lambda>pair. example_scored_fs (score_file ''scores'' pair)) VALID_PAIRS
     = [None, Some (replicate 20 (''10.0000'' @ [CHR 0x0A])), None, None, None, None, None, None,
        None, None]"
  by (simp add: example_scored_fs_def example_fs_def VALID_PAIRS_def score_file_def path_join_def)


lemma example_read_scores:
  "read_scores example_scored_fs ''scores'' = Inr [(''AC'', replicate 20 10)]"
proof -
  note files = example_score_files [unfolded VALID_PAIRS_def list.map list.inject]
  show ?thesis
    unfolding read_scores_def VALID_PAIRS_def
    using example_read_floats by (simp add: files)
qed


lemma example_score_value:
  "compute_distances_and_scores example_residues [(''AC'', vs)] = 190 - ln 20"
proof -
  have "0 \<le> ln (20::real)" by simp
  then have "- ln (20::real) \<le> 10" by linarith
  then have l: "min (- ln 20) 10 = - ln (20::real)" by (rule min_absorb1)
  have "pair_score [0, 0, 0, 2, 0, 0, 0, 0, 0, 0, 0, 0, 0, 0, 0, 0, 0, 0, 0, 0] = 190 - ln 20"
    using l by (simp add: pair_score_spec capped_log_odds_def)
  then show ?thesis
    by (simp add: compute_distances_and_scores_def scoring_distances_eq example_histogram
        example_hist_AC_def)
qed

section \<open>Pair keys from the structures to the written files\<close>

lemma count_pair_keys:
  "fst ` set (count_pair r1 d r2)
     = fst ` set d \<union> (if counted r1 r2 then {pair_key (res_name r1) (res_name r2)} else {})"
  by (auto simp: count_pair_def counted_def passes_guards_def Let_def keys_bump)

lemma inner_loop_keys:
  "fst ` set (foldl (count_pair r1) d rs)
     = fst ` set d \<union> {pair_key (res_name r1) (res_name r2) | r2. r2 \<in> set rs \<and> counted r1 r2}"
  by (induction rs arbitrary: d) (auto simp: count_pair_keys)

lemma outer_loop_keys:
  "fst ` set (foldl (\<lambda>distances r1. foldl (count_pair r1) distances rs) d qs)
     = fst ` set d \<union> {pair_key (res_name r1) (res_name r2) | r1 r2.
                          r1 \<in> set qs \<and> r2 \<in> set rs \<and> counted r1 r2}"
  by (induction qs arbitrary: d) (auto simp: inner_loop_keys)

lemma compute_distances_keys:
  "pair \<in> fst ` set (compute_distances rs) \<longleftrightarrow> pair_occurs pair rs"
  unfolding compute_distances_def outer_loop_keys pair_occurs_def list_ex_iff by auto

lemma add_count_keys:
  "add_count pair d ic = Inr d' \<Longrightarrow> fst ` set d' = insert pair (fst ` set d)"
proof -
  assume a: "add_count pair d ic = Inr d'"
  obtain i c where ic: "ic = (i, c)" by (cases ic)
  have "d' = bump (replicate 20 0) pair i c d"
    using a by (simp add: ic add_count_def Let_def split: if_splits)
  then show ?thesis
    by (simp only: keys_bump)
qed

lemma add_counts_keys:
  "fold_err (add_count pair) d ics = Inr d' \<Longrightarrow> fst ` set d' \<subseteq> insert pair (fst ` set d)"
proof (induction ics arbitrary: d)
  case Nil
  then show ?case by auto
next
  case (Cons ic ics)
  then obtain d1 where d1: "add_count pair d ic = Inr d1" "fold_err (add_count pair) d1 ics = Inr d'"
    by (auto split: sum.splits)
  show ?case
    using Cons.IH [OF d1(2)] add_count_keys [OF d1(1)] by auto
qed

lemma add_entry_keys:
  "add_entry d entry = Inr d' \<Longrightarrow> fst ` set d' \<subseteq> insert (fst entry) (fst ` set d)"
  by (cases entry) (auto simp: add_entry_def split: if_splits dest: add_counts_keys)

lemma add_entries_keys:
  "fold_err add_entry d h = Inr d' \<Longrightarrow> fst ` set d' \<subseteq> fst ` set d \<union> fst ` set h"
proof (induction h arbitrary: d)
  case Nil
  then show ?case by auto
next
  case (Cons e h)
  then obtain d1 where d1: "add_entry d e = Inr d1" "fold_err add_entry d1 h = Inr d'"
    by (auto split: sum.splits)
  show ?case
    using Cons.IH [OF d1(2)] add_entry_keys [OF d1(1)] by auto
qed

lemma aggregate_loop_keys:
  "fold_err (\<lambda>combined_counts distances. fold_err add_entry combined_counts distances) d hs = Inr d'
     \<Longrightarrow> fst ` set d' \<subseteq> fst ` set d \<union> (\<Union>h \<in> set hs. fst ` set h)"
proof (induction hs arbitrary: d)
  case Nil
  then show ?case by auto
next
  case (Cons h hs)
  then obtain d1 where d1: "fold_err add_entry d h = Inr d1"
    "fold_err (\<lambda>combined_counts distances. fold_err add_entry combined_counts distances) d1 hs = Inr d'"
    by (auto split: sum.splits)
  show ?case
    using Cons.IH [OF d1(2)] add_entries_keys [OF d1(1)] by auto
qed

lemma aggregate_counts_keys:
  "aggregate_counts hs = Inr d \<Longrightarrow> fst ` set d \<subseteq> (\<Union>h \<in> set hs. fst ` set h)"
  unfolding aggregate_counts_def using aggregate_loop_keys [of "[]" hs d] by simp

lemma aggregate_absent_pair:
  assumes "list_all (\<lambda>rs. \<not> pair_occurs pair rs) corpus"
  shows "\<exists>combined. aggregate_counts (map compute_distances corpus) = Inr combined
           \<and> map_of combined pair = None"
proof -
  obtain combined where c: "aggregate_counts (map compute_distances corpus) = Inr combined"
    using aggregate_positive by blast
  have "pair \<notin> fst ` set combined"
    using aggregate_counts_keys [OF c] assms
    by (auto simp: list_all_iff compute_distances_keys [symmetric])
  then show ?thesis
    using c by (simp add: map_of_eq_None_iff)
qed

lemma score_file_inj: "score_file dir p = score_file dir q \<Longrightarrow> p = q"
  by (auto simp: score_file_def path_join_def split: if_splits)

lemma write_scores_loop_other:
  assumes "map_of scores pair = None"
  shows "foldl (\<lambda>fs pair.
              case map_of scores pair of
                None \<Rightarrow> fs
              | Some pair_scores \<Rightarrow>
                  if list_ex (\<lambda>score. score > 0) pair_scores then
                    fs(score_file output_dir pair
                         \<mapsto> map (\<lambda>score. fmt4 score @ [CHR 0x0A]) pair_scores)
                  else fs)
           fs ps (score_file output_dir pair) = fs (score_file output_dir pair)"
proof (induction ps arbitrary: fs)
  case Nil
  show ?case by simp
next
  case (Cons p ps)
  show ?case
  proof (cases "p = pair")
    case True
    then show ?thesis using assms Cons by simp
  next
    case False
    then have "score_file output_dir p \<noteq> score_file output_dir pair"
      using score_file_inj by blast
    then show ?thesis
      using Cons by (simp split: option.splits)
  qed
qed

lemma write_scores_absent:
  "map_of scores pair = None \<Longrightarrow>
     write_scores scores output_dir fs (score_file output_dir pair) = fs (score_file output_dir pair)"
  unfolding write_scores_def by (rule write_scores_loop_other)

lemma process_files_loop:
  assumes "map (parse_pdb fs) pdb_files = map Inr corpus"
  shows "fold_err (\<lambda>all_distances pdb_file.
                       case process_single_file fs pdb_file of
                         Inl e \<Rightarrow> Inl e
                       | Inr distances \<Rightarrow> Inr (all_distances @ [distances]))
             acc pdb_files = Inr (acc @ map compute_distances corpus)"
  using assms
proof (induction pdb_files arbitrary: acc corpus)
  case Nil
  then show ?case by simp
next
  case (Cons f fs')
  then obtain rs corpus' where "corpus = rs # corpus'" "parse_pdb fs f = Inr rs"
    "map (parse_pdb fs) fs' = map Inr corpus'"
    by (cases corpus) auto
  then show ?case
    using Cons.IH [of corpus'] by (simp add: process_single_file_def)
qed

lemma example_no_CG: "\<not> pair_occurs ''CG'' example_residues"
  by (simp add: compute_distances_keys [symmetric] example_histogram example_hist_AC_def)

lemma example_parse: "parse_pdb example_fs ''example.pdb'' = Inr example_residues"
proof -
  have w: "list_all (\<lambda>line. relevant line \<longrightarrow> well_formed line) example_pdb_lines"
    using example_lines_facts by (simp add: example_pdb_lines_def)
  show ?thesis
    using parse_lines_loop [OF w, of "[]"]
    by (simp add: parse_pdb_def parse_lines_def example_lines_residues example_fs_def)
qed

lemma example_aggregate: "aggregate_counts [example_hist_AC] = Inr example_hist_AC"
  by code_simp

section \<open>Reading back what the codec writes\<close>






























lemma example_round4: "map round4 [10, - 2.99573, 0.03125] = [10, - 2.9957, 0.0312]"
  by (simp add: round4_def round_half_even_def Let_def)

section \<open>Claims about the histogram builder\<close>

text \<open>
  Claim C1, as the specification states it, does not hold for every list of residues:
  the histogram builder counts a qualifying pair only under one of the ten valid pair
  keys. Two residues of bases A and T on the same chain, four positions and 3.5 apart,
  are one qualifying unordered pair, and the histogram stays empty.
\<close>

theorem histogram_total_counterexample:
  "qualifying_pairs example_dna_residues = [(0, 1)]
   \<and> hist_total (compute_distances example_dna_residues) = 0
   \<and> hist_total (compute_distances example_dna_residues)
       \<noteq> 2 * length (qualifying_pairs example_dna_residues)"
proof -
  have q: "qualifying_pairs example_dna_residues = [(0, 1)]"
    by (simp add: qualifying_pairs_def unordered_pairs_def qualifies_def
        euclidean_distance_def example_dna_residues_def upt_rec)
  have b: "bin_index (example_dna_residues ! 0) (example_dna_residues ! 1) = 3"
          "bin_index (example_dna_residues ! 1) (example_dna_residues ! 0) = 3"
    by (simp_all add: example_dna_residues_def bin_index_def euclid_def)
  have "compute_distances example_dna_residues = []"
    using b
    by (simp add: compute_distances_def count_pair_def example_dna_residues_def pair_key_def
        VALID_PAIRS_def Let_def)
  then show ?thesis
    using q by (simp add: hist_total_def)
qed

text \<open>
  Claim C1, amended. For every list of residues, the sum over all pair keys and all
  twenty bins of the histogram built by \<open>compute_distances\<close> is twice the number of
  unordered pairs of distinct residues (list positions \<open>i < j\<close>) that are on the same
  chain, at least three sequence positions apart, whose Euclidean distance has a floor
  below twenty, and whose two base types, sorted and joined, form one of the ten valid
  pair keys: each such pair is counted exactly twice. When every residue carries a valid
  base type (A, U, G or C, as every residue that the parser returns does), the last
  condition holds for every pair, and the total is twice the number of qualifying
  unordered pairs.
\<close>

theorem histogram_total_double_count:
  "hist_total (compute_distances rs) = 2 * length (keyed_qualifying_pairs rs)
   \<and> (list_all valid_residue rs \<longrightarrow>
        hist_total (compute_distances rs) = 2 * length (qualifying_pairs rs))"
proof -
  have "hist_total (compute_distances rs) = 2 * length (keyed_qualifying_pairs rs)"
    by (simp only: compute_distances_counted keyed_qualifying_pairs_card)
  then show ?thesis
    by (simp add: keyed_qualifying_pairs_valid)
qed

theorem histogram_total_double_count_witness:
  "list_all valid_residue example_axis_residues
   \<and> qualifying_pairs example_axis_residues = [(0, 1), (0, 3), (1, 2), (3, 5)]
   \<and> hist_total (compute_distances example_axis_residues) = 8
   \<and> keyed_qualifying_pairs example_dna_residues = []
   \<and> hist_total (compute_distances example_dna_residues) = 0"
proof -
  have v: "list_all valid_residue example_axis_residues"
    by (simp add: example_axis_residues_def valid_residue_def VALID_RESIDUES_def)
  have q: "qualifying_pairs example_axis_residues = [(0, 1), (0, 3), (1, 2), (3, 5)]"
    by (simp add: qualifying_pairs_def unordered_pairs_def qualifies_def
        euclidean_distance_def example_axis_residues_def upt_rec)
  have k: "keyed_qualifying_pairs example_dna_residues = []"
    by (simp add: keyed_qualifying_pairs_def qualifying_pairs_def unordered_pairs_def
        qualifies_def euclidean_distance_def has_valid_key_def canonical_key_def
        VALID_PAIRS_def example_dna_residues_def upt_rec)
  show ?thesis
    using histogram_total_double_count [of example_axis_residues]
      histogram_total_double_count [of example_dna_residues] v q k
    by simp
qed

text \<open>
  Claim C8. For every residue list, every pair key present in the histogram returned by
  \<open>compute_distances\<close> has a positive total: a key is created only by an increment,
  so no entry is all zero. The same holds for the aggregate of any list of such
  histograms (which is always produced, without an error), so the zero-total branch of
  the score derivation is never taken on histograms produced by the pipeline.
\<close>

theorem built_histograms_positive_totals:
  "positive_totals (compute_distances rs)
   \<and> (\<exists>d. aggregate_counts (map compute_distances rss) = Inr d \<and> positive_totals d)"
proof
  have "twenty_bins []" "positive_totals []"
    by (simp_all add: twenty_bins_def positive_totals_def)
  then show "positive_totals (compute_distances rs)"
    unfolding compute_distances_def by (rule outer_loop_positive)
next
  have "agg_inv []"
    by (simp add: agg_inv_def twenty_bins_def)
  moreover have "list_all twenty_bins (map compute_distances rss)"
    by (simp add: list_all_iff compute_distances_twenty_bins)
  moreover have "list_all positive_totals (map compute_distances rss)"
    by (simp add: list_all_iff compute_distances_positive)
  ultimately obtain d where "aggregate_counts (map compute_distances rss) = Inr d" "agg_inv d"
    unfolding aggregate_counts_def using aggregate_loop_inv by blast
  then show "\<exists>d. aggregate_counts (map compute_distances rss) = Inr d \<and> positive_totals d"
    using agg_inv_positive by blast
qed

text \<open>
  Claim C9. For every residue list, the histogram built by the loop of the scoring path
  is equal, key for key and bin for bin, to the histogram built by \<open>compute_distances\<close>
  of the training path.
\<close>

theorem scoring_histogram_eq_training_histogram:
  "scoring_distances rs = compute_distances rs"
proof -
  have "count_pair_scoring r1 d r2 = count_pair r1 d r2" for r1 d r2
    by (simp add: count_pair_scoring_def count_pair_def bin_index_def initialize_counts_def
        Let_def)
  then have "count_pair_scoring = count_pair"
    by (intro ext)
  then show ?thesis
    by (simp add: scoring_distances_def compute_distances_def)
qed

section \<open>Claims about aggregation\<close>

text \<open>
  Claim C6. For every finite collection of per-structure histograms and every
  permutation of it (a list with the same multiset of histograms), \<open>aggregate_counts\<close>
  gives the same outcome: the same error, or dictionaries with the same counts for every
  pair key (dictionaries are compared as Python compares them, as finite maps).
\<close>

theorem aggregate_counts_order_independent:
  assumes "mset hs = mset hs'"
  shows "map_sum id map_of (aggregate_counts hs) = map_sum id map_of (aggregate_counts hs')"
proof -
  have "mset (steps_of hs) = mset (steps_of hs')"
    using assms by (rule steps_of_mset)
  moreover have "astep x \<circ> astep y = astep y \<circ> astep x" for x y
    by (simp add: fun_eq_iff astep_commute)
  ultimately have "fold astep (steps_of hs) = fold astep (steps_of hs')"
    by (intro fold_multiset_equiv)
  then show ?thesis
    by (simp add: aggregate_counts_steps fold_err_astep)
qed

theorem aggregate_counts_order_independent_witness:
  "mset [example_hist_AC, example_hist_AA] = mset [example_hist_AA, example_hist_AC]
   \<and> aggregate_counts [example_hist_AC, example_hist_AA] = Inr (example_hist_AC @ example_hist_AA)
   \<and> aggregate_counts [example_hist_AA, example_hist_AC] = Inr (example_hist_AA @ example_hist_AC)
   \<and> map_sum id map_of (aggregate_counts [example_hist_AC, example_hist_AA])
     = map_sum id map_of (aggregate_counts [example_hist_AA, example_hist_AC])"
proof -
  have m: "mset [example_hist_AC, example_hist_AA] = mset [example_hist_AA, example_hist_AC]"
    by simp
  have a: "aggregate_counts [example_hist_AC, example_hist_AA]
             = Inr (example_hist_AC @ example_hist_AA)"
    by code_simp
  have b: "aggregate_counts [example_hist_AA, example_hist_AC]
             = Inr (example_hist_AA @ example_hist_AC)"
    by code_simp
  show ?thesis
    using aggregate_counts_order_independent [OF m] m a b by simp
qed

section \<open>Claims about score derivation\<close>

text \<open>
  Claim C2, as it is stated, at an aggregated histogram with a rare bin (2 of 4000002
  counts): the derived score of that bin is 10 although its observed frequency is not 0,
  so "a score equals 10 exactly when the observed frequency is 0" fails.
\<close>

theorem score_10_iff_zero_freq_counterexample:
  "\<not> (the (map_of (calculate_scores example_rare) ''AA'') ! 0 = 10 \<longleftrightarrow>
        observed_freq (the (map_of example_rare ''AA'') ! 0)
          (sum_list (the (map_of example_rare ''AA''))) = 0)"
proof -
  have f: "observed_freq 2 4000002 \<le> exp (- 10) / 20"
    by (rule tiny_freq)
  have "bin_score 2 4000002 = 10"
    using capped_eq_10_iff [OF observed_freq_nonneg, of 2 4000002] f
    by (simp add: bin_score_spec)
  then have "the (map_of (calculate_scores example_rare) ''AA'') ! 0 = 10"
    by (simp add: map_of_calculate_scores example_rare_lookup)
  moreover have "observed_freq (the (map_of example_rare ''AA'') ! 0)
          (sum_list (the (map_of example_rare ''AA''))) \<noteq> 0"
    by (simp add: example_rare_lookup observed_freq_def)
  ultimately show ?thesis by simp
qed

text \<open>
  Claim C2, amended. For every histogram and every pair key with counts, each derived
  score equals min(raw, 10), where raw is the negated logarithm of observed frequency
  over 1/20 when the observed frequency is positive and 10 otherwise; every derived
  score is at most 10; and a score equals 10 exactly when the observed frequency of the
  bin is 0 or is so small that the raw score reaches the cap (at most e^-10 / 20).
\<close>

theorem calculate_scores_capped:
  assumes "map_of d pair = Some counts" and "i < length counts"
  shows "\<exists>scores. map_of (calculate_scores d) pair = Some scores
           \<and> length scores = length counts
           \<and> scores ! i = min (raw_score (observed_freq (counts ! i) (sum_list counts))) 10
           \<and> scores ! i \<le> 10
           \<and> (scores ! i = 10 \<longleftrightarrow>
                observed_freq (counts ! i) (sum_list counts) = 0
                \<or> observed_freq (counts ! i) (sum_list counts) \<le> exp (- 10) / 20)"
proof -
  let ?scores = "map (\<lambda>cnt. bin_score cnt (sum_list counts)) counts"
  let ?f = "observed_freq (counts ! i) (sum_list counts)"
  have "map_of (calculate_scores d) pair = Some ?scores"
    using assms(1) by (simp add: map_of_calculate_scores)
  moreover have "?scores ! i = min (raw_score ?f) 10"
    using assms(2) by (simp add: bin_score_spec)
  moreover have "min (raw_score ?f) 10 = 10 \<longleftrightarrow> ?f = 0 \<or> ?f \<le> exp (- 10) / 20"
    by (rule capped_eq_10_iff) (rule observed_freq_nonneg)
  ultimately show ?thesis
    by (intro exI [of _ ?scores]) simp
qed

theorem calculate_scores_capped_witness:
  "map_of example_rare ''AA''
     = Some [2, 4000000, 0, 0, 0, 0, 0, 0, 0, 0, 0, 0, 0, 0, 0, 0, 0, 0, 0, 0]
   \<and> (\<exists>scores. map_of (calculate_scores example_rare) ''AA'' = Some scores
         \<and> length scores = 20 \<and> scores ! 2 = 10 \<and> scores ! 2 \<le> 10)"
proof -
  let ?counts = "[2, 4000000, 0, 0, 0, 0, 0, 0, 0, 0, 0, 0, 0, 0, 0, 0, 0, 0, 0, 0] :: nat list"
  have i: "2 < length ?counts" by simp
  have z: "observed_freq (?counts ! 2) (sum_list ?counts) = 0"
    by (simp add: observed_freq_def)
  show ?thesis
    using calculate_scores_capped [OF example_rare_lookup i] example_rare_lookup z
    by auto
qed

section \<open>Claims about the scorer\<close>

text \<open>
  Claim C5. For every residue list and every loaded score table, the pseudo-energy of
  the structure is the sum, over the pair keys present both in the structure's own
  histogram and in the table, over the twenty bins, of the capped log-odds score
  computed from the structure's own counts. The values stored in the table are never
  used: tables with the same keys give the same result, and a key absent from the table
  contributes nothing.
\<close>

theorem structure_score_from_own_counts:
  "compute_distances_and_scores rs scores
     = (\<Sum>pair \<in> fst ` set (scoring_distances rs) \<inter> fst ` set scores.
          \<Sum>i<20. capped_log_odds (the (map_of (scoring_distances rs) pair) ! i)
                   (sum_list (the (map_of (scoring_distances rs) pair))))
   \<and> (\<forall>scores'. fst ` set scores' = fst ` set scores \<longrightarrow>
          compute_distances_and_scores rs scores' = compute_distances_and_scores rs scores)"
proof
  let ?d = "scoring_distances rs"
  let ?K = "fst ` set scores"
  let ?g = "\<lambda>pair bins. if pair \<in> ?K then pair_score bins else 0"
  have dist: "distinct (map fst ?d)"
    by (simp add: scoring_distances_eq compute_distances_distinct)
  have len: "length (the (map_of ?d pair)) = 20" if "pair \<in> fst ` set ?d" for pair
  proof -
    from that obtain bins where "(pair, bins) \<in> set ?d" by auto
    then have "map_of ?d pair = Some bins"
      using dist by (simp add: map_of_is_SomeI)
    moreover have "twenty_bins ?d"
      by (simp add: scoring_distances_eq compute_distances_twenty_bins)
    ultimately show ?thesis
      by (simp add: twenty_bins_lookup)
  qed
  have "compute_distances_and_scores rs scores = (\<Sum>(pair, bins)\<leftarrow>?d. ?g pair bins)"
  proof -
    have "(\<lambda>total_score (pair, bins). if pair \<in> ?K then total_score + pair_score bins else total_score)
            = (\<lambda>total_score e. total_score + (case e of (pair, bins) \<Rightarrow> ?g pair bins))"
      by (auto simp: fun_eq_iff)
    then show ?thesis
      unfolding compute_distances_and_scores_def Let_def by (simp add: foldl_add_sum_list)
  qed
  also have "\<dots> = (\<Sum>pair \<in> fst ` set ?d. ?g pair (the (map_of ?d pair)))"
    using dist by (rule sum_list_entries_keys)
  also have "\<dots> = (\<Sum>pair \<in> fst ` set ?d \<inter> ?K. pair_score (the (map_of ?d pair)))"
    by (simp add: sum.inter_restrict)
  also have "\<dots> = (\<Sum>pair \<in> fst ` set ?d \<inter> ?K.
                     \<Sum>i<20. capped_log_odds (the (map_of ?d pair) ! i) (sum_list (the (map_of ?d pair))))"
    by (intro sum.cong refl pair_score_bins len) simp
  finally show "compute_distances_and_scores rs scores
     = (\<Sum>pair \<in> fst ` set ?d \<inter> ?K.
          \<Sum>i<20. capped_log_odds (the (map_of ?d pair) ! i) (sum_list (the (map_of ?d pair))))" .
next
  show "\<forall>scores'. fst ` set scores' = fst ` set scores \<longrightarrow>
          compute_distances_and_scores rs scores' = compute_distances_and_scores rs scores"
    by (simp add: compute_distances_and_scores_def)
qed

theorem structure_score_from_own_counts_witness:
  "fst ` set example_table_tens = fst ` set example_table_zeros
   \<and> compute_distances_and_scores example_residues example_table_tens
     = compute_distances_and_scores example_residues example_table_zeros
   \<and> compute_distances_and_scores example_residues example_table_zeros = 190 - ln 20
   \<and> compute_distances_and_scores example_residues [] = 0"
proof -
  have k: "fst ` set example_table_tens = fst ` set example_table_zeros"
    by (simp add: example_table_tens_def example_table_zeros_def)
  have h: "scoring_distances example_residues = example_hist_AC"
    by (simp add: scoring_distances_eq example_histogram)
  have "0 \<le> ln (20::real)" by simp
  then have "- ln (20::real) \<le> 10" by linarith
  then have l: "min (- ln 20) 10 = - ln (20::real)" by (rule min_absorb1)
  have v: "(\<Sum>i<20. capped_log_odds ([0, 0, 0, 2, 0, 0, 0, 0, 0, 0, 0, 0, 0, 0, 0, 0, 0, 0, 0, 0] ! i)
                     (sum_list [0, 0, 0, 2, 0, 0, 0, 0, 0, 0, 0, 0, 0, 0, 0, 0, 0, 0, 0, 0]))
             = 190 - ln 20"
    using l by (simp add: capped_log_odds_def numeral_eq_Suc lessThan_Suc)
  have s: "compute_distances_and_scores example_residues example_table_zeros = 190 - ln 20"
    using structure_score_from_own_counts [of example_residues example_table_zeros, THEN conjunct1] v
    by (simp add: h example_hist_AC_def example_table_zeros_def)
  have e: "compute_distances_and_scores example_residues [] = 0"
    using structure_score_from_own_counts [of example_residues "[]", THEN conjunct1] by simp
  have t: "compute_distances_and_scores example_residues example_table_tens
             = compute_distances_and_scores example_residues example_table_zeros"
    using structure_score_from_own_counts
      [of example_residues example_table_zeros, THEN conjunct2, rule_format,
       of example_table_tens] k
    by simp
  show ?thesis
    using k t s e by simp
qed

section \<open>Claims about the parser\<close>




section \<open>Claims about the evaluation driver\<close>

text \<open>
  Claim C10. For an empty list of files the evaluation driver returns 0 (once the score
  table is loaded; an error of loading it is passed on) and does not divide by zero.
  For every non-empty list of files that all parse, it returns the sum of the
  per-structure scores divided by the number of files.
\<close>

theorem evaluate_structures_mean:
  "evaluate_structures fs [] score_dir = map_sum id (\<lambda>scores. 0) (read_scores fs score_dir)
   \<and> (read_scores fs score_dir = Inr scores \<longrightarrow> pdb_files \<noteq> [] \<longrightarrow>
        map (parse_pdb fs) pdb_files = map Inr rss \<longrightarrow>
        evaluate_structures fs pdb_files score_dir
          = Inr ((\<Sum>rs\<leftarrow>rss. compute_distances_and_scores rs scores) / real (length pdb_files)))"
proof (intro conjI impI)
  show "evaluate_structures fs [] score_dir = map_sum id (\<lambda>scores. 0) (read_scores fs score_dir)"
    by (cases "read_scores fs score_dir") (simp_all add: evaluate_structures_def)
next
  assume "read_scores fs score_dir = Inr scores" "pdb_files \<noteq> []"
    and "map (parse_pdb fs) pdb_files = map Inr rss"
  then show "evaluate_structures fs pdb_files score_dir
          = Inr ((\<Sum>rs\<leftarrow>rss. compute_distances_and_scores rs scores) / real (length pdb_files))"
    using evaluate_loop [of fs pdb_files rss scores 0]
    by (simp add: evaluate_structures_def)
qed

theorem evaluate_structures_mean_witness:
  "evaluate_structures example_scored_fs [] ''scores'' = Inr 0
   \<and> read_scores example_scored_fs ''scores'' = Inr [(''AC'', replicate 20 10)]
   \<and> [''example.pdb'', ''example.pdb''] \<noteq> []
   \<and> map (parse_pdb example_scored_fs) [''example.pdb'', ''example.pdb'']
       = map Inr [example_residues, example_residues]
   \<and> evaluate_structures example_scored_fs [''example.pdb'', ''example.pdb''] ''scores''
       = Inr (190 - ln 20)"
proof -
  have r: "read_scores example_scored_fs ''scores'' = Inr [(''AC'', replicate 20 10)]"
    by (rule example_read_scores)
  have f: "example_scored_fs ''example.pdb'' = Some example_pdb_lines"
    by (simp add: example_scored_fs_def example_fs_def)
  have w: "list_all (\<lambda>line. relevant line \<longrightarrow> well_formed line) example_pdb_lines"
    using example_lines_facts by (simp add: example_pdb_lines_def)
  have "parse_pdb example_scored_fs ''example.pdb'' = Inr example_residues"
    using parse_lines_loop [OF w, of "[]"] f
    by (simp add: parse_pdb_def parse_lines_def example_lines_residues)
  then have p: "map (parse_pdb example_scored_fs) [''example.pdb'', ''example.pdb'']
       = map Inr [example_residues, example_residues]"
    by simp
  have n: "[''example.pdb'', ''example.pdb''] \<noteq> []" by simp
  have s: "compute_distances_and_scores example_residues [(''AC'', replicate 20 10)] = 190 - ln 20"
    by (rule example_score_value)
  show ?thesis
    using evaluate_structures_mean [of example_scored_fs "''scores''"
        "[(''AC'', replicate 20 10)]" "[''example.pdb'', ''example.pdb'']"
        "[example_residues, example_residues]"] r p s
    by simp
qed

section \<open>Claims about the training run\<close>

text \<open>
  Claim C3, as it is stated, at the corpus made of the example structure, in which the
  pair of G with C (key CG) never occurs: the trained score table has no entry for CG
  (not twenty scores equal to 10), and no score file is written for it.
\<close>

theorem absent_pair_all_tens_counterexample:
  "''CG'' \<in> set VALID_PAIRS
   \<and> \<not> pair_occurs ''CG'' example_residues
   \<and> aggregate_counts (map compute_distances [example_residues]) = Inr example_hist_AC
   \<and> map_of (calculate_scores example_hist_AC) ''CG'' = None
   \<and> process_pdb_files_parallel example_fs [''example.pdb''] ''out''
       = Inr (write_scores (calculate_scores example_hist_AC) ''out'' example_fs)
   \<and> write_scores (calculate_scores example_hist_AC) ''out'' example_fs (score_file ''out'' ''CG'')
       = None"
proof -
  have v: "''CG'' \<in> set VALID_PAIRS" by (simp add: VALID_PAIRS_def)
  have a: "aggregate_counts (map compute_distances [example_residues]) = Inr example_hist_AC"
    by (simp add: example_histogram example_aggregate)
  have s: "map_of (calculate_scores example_hist_AC) ''CG'' = None"
    by (simp add: map_of_calculate_scores example_hist_AC_def)
  have p: "process_pdb_files_parallel example_fs [''example.pdb''] ''out''
       = Inr (write_scores (calculate_scores example_hist_AC) ''out'' example_fs)"
    using a by (simp add: process_pdb_files_parallel_def process_single_file_def example_parse)
  have f: "example_fs (score_file ''out'' ''CG'') = None"
    by (simp add: example_fs_def score_file_def path_join_def)
  show ?thesis
    using v example_no_CG a s p write_scores_absent [OF s, of "''out''" example_fs] f by simp
qed

text \<open>
  Claim C3, amended. For a training corpus in which a given pair key never occurs in any
  structure, aggregation has no entry for that key, the trained score table has no entry
  for it either, and the training run writes no score file for it: the file of that key
  in the output directory is left as it was.
\<close>

theorem absent_pair_not_written:
  assumes "map (parse_pdb fs) pdb_files = map Inr corpus"
    and "list_all (\<lambda>residues. \<not> pair_occurs pair residues) corpus"
  shows "\<exists>combined. aggregate_counts (map compute_distances corpus) = Inr combined
           \<and> map_of (calculate_scores combined) pair = None
           \<and> process_pdb_files_parallel fs pdb_files output_dir
               = Inr (write_scores (calculate_scores combined) output_dir fs)
           \<and> write_scores (calculate_scores combined) output_dir fs (score_file output_dir pair)
               = fs (score_file output_dir pair)"
proof -
  obtain combined where c: "aggregate_counts (map compute_distances corpus) = Inr combined"
    "map_of combined pair = None"
    using aggregate_absent_pair [OF assms(2)] by blast
  have s: "map_of (calculate_scores combined) pair = None"
    using c(2) by (simp add: map_of_calculate_scores)
  have "process_pdb_files_parallel fs pdb_files output_dir
               = Inr (write_scores (calculate_scores combined) output_dir fs)"
    using process_files_loop [OF assms(1), of "[]"] c(1)
    by (simp add: process_pdb_files_parallel_def)
  then show ?thesis
    using c(1) s write_scores_absent [OF s] by blast
qed

theorem absent_pair_not_written_witness:
  "map (parse_pdb example_fs) [''example.pdb''] = map Inr [example_residues]
   \<and> list_all (\<lambda>residues. \<not> pair_occurs ''CG'' residues) [example_residues]
   \<and> (\<exists>combined. aggregate_counts (map compute_distances [example_residues]) = Inr combined
           \<and> map_of (calculate_scores combined) ''CG'' = None
           \<and> process_pdb_files_parallel example_fs [''example.pdb''] ''out''
               = Inr (write_scores (calculate_scores combined) ''out'' example_fs)
           \<and> write_scores (calculate_scores combined) ''out'' example_fs (score_file ''out'' ''CG'')
               = None)"
proof -
  have p: "map (parse_pdb example_fs) [''example.pdb''] = map Inr [example_residues]"
    by (simp add: example_parse)
  have n: "list_all (\<lambda>residues. \<not> pair_occurs ''CG'' residues) [example_residues]"
    by (simp add: example_no_CG)
  have f: "example_fs (score_file ''out'' ''CG'') = None"
    by (simp add: example_fs_def score_file_def path_join_def)
  show ?thesis
    using absent_pair_not_written [OF p n, of "''out''"] p n f by simp
qed

section \<open>Claims about the codec\<close>



end
